theory Spec2Isabelle
  imports Complex_Main "HOL-Library.Word"
begin

section \<open>JavaScript strings\<close>

text \<open>
  A JavaScript string is a sequence of UTF-16 code units. The model keeps the code units
  below 256, one \<^typ>\<open>char\<close> each; the regular expressions and literals of
  \<^verbatim>\<open>md2pdf.mjs\<close> that are modelled here only name characters of that range.
\<close>

definition isSpace :: "char \<Rightarrow> bool" where
  \<comment> \<open>the class \<^verbatim>\<open>\s\<close>, also what \<^verbatim>\<open>trim()\<close> strips:
      TAB, LF, VT, FF, CR, SP, NBSP\<close>
  "isSpace c \<longleftrightarrow> c \<in> set [CHR 0x09, CHR 0x0A, CHR 0x0B, CHR 0x0C, CHR 0x0D, CHR 0x20, CHR 0xA0]"

definition isWordChar :: "char \<Rightarrow> bool" where
  \<comment> \<open>the class \<^verbatim>\<open>\w\<close>: letters, digits, underscore\<close>
  "isWordChar c \<longleftrightarrow>
     (let n = (of_char c :: nat) in
        (65 \<le> n \<and> n \<le> 90) \<or> (97 \<le> n \<and> n \<le> 122) \<or> (48 \<le> n \<and> n \<le> 57) \<or> n = 95)"

definition anyChar :: "char \<Rightarrow> bool" where
  \<comment> \<open>\<^verbatim>\<open>[\s\S]\<close>, and \<^verbatim>\<open>.\<close> under the flag \<^verbatim>\<open>s\<close>\<close>
  "anyChar c \<longleftrightarrow> True"

definition notGt :: "char \<Rightarrow> bool" where
  \<comment> \<open>\<^verbatim>\<open>[^>]\<close>\<close>
  "notGt c \<longleftrightarrow> c \<noteq> CHR ''>''"

definition isQuote :: "char \<Rightarrow> bool" where
  \<comment> \<open>\<^verbatim>\<open>["']\<close>\<close>
  "isQuote c \<longleftrightarrow> c = CHR 0x22 \<or> c = CHR 0x27"

definition notQuote :: "char \<Rightarrow> bool" where
  \<comment> \<open>\<^verbatim>\<open>[^"']\<close>\<close>
  "notQuote c \<longleftrightarrow> \<not> isQuote c"

definition toLowerChar :: "char \<Rightarrow> char" where
  "toLowerChar c =
     (let n = (of_char c :: nat) in
        if (65 \<le> n \<and> n \<le> 90) \<or> (192 \<le> n \<and> n \<le> 222 \<and> n \<noteq> 215)
        then char_of (n + 32) else c)"

definition toLowerCase :: "string \<Rightarrow> string" where
  "toLowerCase s = map toLowerChar s"

definition trim :: "string \<Rightarrow> string" where
  "trim s = rev (dropWhile isSpace (rev (dropWhile isSpace s)))"

definition eqIgnoreCase :: "string \<Rightarrow> string \<Rightarrow> bool" where
  \<comment> \<open>comparison under the flag \<^verbatim>\<open>i\<close>, for patterns of ASCII characters\<close>
  "eqIgnoreCase s t \<longleftrightarrow> toLowerCase s = toLowerCase t"

fun firstSome :: "('a \<Rightarrow> 'b option) \<Rightarrow> 'a list \<Rightarrow> 'b option" where
  "firstSome f [] = None"
| "firstSome f (x # xs) = (case f x of Some y \<Rightarrow> Some y | None \<Rightarrow> firstSome f xs)"

section \<open>Regular expressions, as a backtracking matcher\<close>

text \<open>
  The regular expressions of the program are sequences of literals, quantified character
  classes, capture parentheses and the anchors \<^verbatim>\<open>^\<close> and \<^verbatim>\<open>$\<close>; none has
  an alternative or a nested quantifier. \<open>Rep p lo hi greedy\<close> is the class \<open>p\<close>
  repeated between \<open>lo\<close> and \<open>hi\<close> times (\<open>None\<close>: unbounded), greedy or lazy.
\<close>

datatype item =
    Lit string
  | LitI string
  | Rep "char \<Rightarrow> bool" nat "nat option" bool
  | GOpen
  | GClose
  | Bol
  | Eol

definition runLength :: "(char \<Rightarrow> bool) \<Rightarrow> nat option \<Rightarrow> string \<Rightarrow> nat" where
  "runLength p hi s =
     (let n = length (takeWhile p s) in case hi of None \<Rightarrow> n | Some h \<Rightarrow> min h n)"

definition repCounts :: "(char \<Rightarrow> bool) \<Rightarrow> nat \<Rightarrow> nat option \<Rightarrow> bool \<Rightarrow> string \<Rightarrow> nat list" where
  \<comment> \<open>the repetition counts in the order the matcher tries them\<close>
  "repCounts p lo hi greedy s =
     (let ns = [lo ..< Suc (runLength p hi s)] in if greedy then rev ns else ns)"

text \<open>
  \<open>bt items inp rest opn caps\<close> matches \<open>items\<close> against the suffix \<open>rest\<close> of the
  input \<open>inp\<close>; \<open>opn\<close> is the suffix at which the open capture group started and
  \<open>caps\<close> the captures closed so far. The result is the suffix left after the first
  match in backtracking order, with the captures.
\<close>

fun bt :: "item list \<Rightarrow> string \<Rightarrow> string \<Rightarrow> string \<Rightarrow> string list \<Rightarrow> (string \<times> string list) option" where
  "bt [] inp rest opn caps = Some (rest, caps)"
| "bt (Lit s # items) inp rest opn caps =
     (if take (length s) rest = s then bt items inp (drop (length s) rest) opn caps else None)"
| "bt (LitI s # items) inp rest opn caps =
     (if eqIgnoreCase (take (length s) rest) s then bt items inp (drop (length s) rest) opn caps
      else None)"
| "bt (Rep p lo hi greedy # items) inp rest opn caps =
     firstSome (\<lambda>n. bt items inp (drop n rest) opn caps) (repCounts p lo hi greedy rest)"
| "bt (GOpen # items) inp rest opn caps = bt items inp rest rest caps"
| "bt (GClose # items) inp rest opn caps =
     bt items inp rest opn (caps @ [take (length opn - length rest) opn])"
| "bt (Bol # items) inp rest opn caps =
     (if length rest = length inp then bt items inp rest opn caps else None)"
| "bt (Eol # items) inp rest opn caps =
     (if rest = [] then bt items inp rest opn caps else None)"

record rmatch =
  index :: nat
  matched :: string
  captures :: "string list"

definition matchAt :: "item list \<Rightarrow> string \<Rightarrow> nat \<Rightarrow> rmatch option" where
  "matchAt items inp i =
     (case bt items inp (drop i inp) [] [] of
        None \<Rightarrow> None
      | Some (rest, caps) \<Rightarrow>
          Some \<lparr>index = i, matched = take (length inp - i - length rest) (drop i inp),
                captures = caps\<rparr>)"

definition exec :: "item list \<Rightarrow> string \<Rightarrow> nat \<Rightarrow> rmatch option" where
  \<comment> \<open>\<^verbatim>\<open>regex.exec(inp)\<close> with \<^verbatim>\<open>lastIndex = start\<close>: the leftmost match\<close>
  "exec items inp start = firstSome (matchAt items inp) [start ..< Suc (length inp)]"

definition matchEnd :: "rmatch \<Rightarrow> nat" where
  "matchEnd m = index m + length (matched m)"

lemma firstSome_cong [fundef_cong]:
  "xs = ys \<Longrightarrow> (\<And>x. x \<in> set ys \<Longrightarrow> f x = g x) \<Longrightarrow> firstSome f xs = firstSome g ys"
  by (induction ys arbitrary: xs) (auto split: option.splits)

lemma firstSome_SomeD: "firstSome f xs = Some y \<Longrightarrow> \<exists>x \<in> set xs. f x = Some y"
  by (induction xs) (auto split: option.splits)

lemma exec_bounds:
  assumes "exec items inp start = Some m"
  shows "start \<le> index m" and "index m \<le> length inp" and "matchEnd m \<le> length inp"
proof -
  from assms obtain i where i: "i \<in> set [start ..< Suc (length inp)]" "matchAt items inp i = Some m"
    unfolding exec_def by (blast dest: firstSome_SomeD)
  then obtain rest :: string and caps where m: "m = \<lparr>index = i,
      matched = take (length inp - i - length rest) (drop i inp), captures = caps\<rparr>"
    by (auto simp: matchAt_def split: option.splits)
  from i m show "start \<le> index m" and "index m \<le> length inp" and "matchEnd m \<le> length inp"
    by (auto simp: matchEnd_def)
qed

text \<open>
  The loop \<^verbatim>\<open>while ((match = regex.exec(str)) !== null)\<close> over a global regular
  expression: each call starts at \<^verbatim>\<open>lastIndex\<close>, the end of the previous match. An
  empty match leaves \<^verbatim>\<open>lastIndex\<close> where it finds it, and the loop never ends: that
  is the value \<open>None\<close>.
\<close>

function execAll :: "item list \<Rightarrow> string \<Rightarrow> nat \<Rightarrow> rmatch list option" where
  "execAll items inp start =
     (case exec items inp start of
        None \<Rightarrow> Some []
      | Some m \<Rightarrow>
          if matched m = [] then None
          else map_option ((#) m) (execAll items inp (matchEnd m)))"
  by pat_completeness auto
termination
proof (relation "measure (\<lambda>(items, inp, start). Suc (length inp) - start)")
  show "wf (measure (\<lambda>(items, inp, start). Suc (length inp) - start))" by simp
next
  fix items inp start m
  assume "exec items inp start = Some m" and "matched m \<noteq> []"
  then show "((items, inp, matchEnd m), (items, inp, start))
      \<in> measure (\<lambda>(items, inp, start). Suc (length inp) - start)"
    using exec_bounds [of items inp start m] by (cases "matched m") (auto simp: matchEnd_def)
qed

definition test :: "item list \<Rightarrow> string \<Rightarrow> bool" where
  \<comment> \<open>\<^verbatim>\<open>regex.test(str)\<close> for a regular expression without the flag \<^verbatim>\<open>g\<close>\<close>
  "test items str \<longleftrightarrow> exec items str 0 \<noteq> None"

subsection \<open>Replacement\<close>

definition isDigit :: "char \<Rightarrow> bool" where
  "isDigit c \<longleftrightarrow> (48 :: nat) \<le> of_char c \<and> (of_char c :: nat) \<le> 57"

definition digitVal :: "char \<Rightarrow> nat" where
  "digitVal c = of_char c - 48"

definition capture :: "string list \<Rightarrow> nat \<Rightarrow> string" where
  \<comment> \<open>capture \<open>n\<close>, counted from 1; every group of the expressions modelled here takes part
      in every match\<close>
  "capture caps n = (if 1 \<le> n \<and> n \<le> length caps then caps ! (n - 1) else [])"

text \<open>
  \<^verbatim>\<open>GetSubstitution\<close> of ECMA-262, which \<^verbatim>\<open>String.prototype.replace\<close> applies to a
  replacement given as a string: \<^verbatim>\<open>$$\<close>, \<^verbatim>\<open>$&\<close>, \<^verbatim>\<open>$`\<close>, \<^verbatim>\<open>$'\<close> and
  \<^verbatim>\<open>$n\<close>, \<^verbatim>\<open>$nn\<close> are patterns, every other character stands for itself (none of
  the expressions has a named group, so \<^verbatim>\<open>$<\<close> is literal).
\<close>

fun getSubstitution :: "string \<Rightarrow> string \<Rightarrow> nat \<Rightarrow> string list \<Rightarrow> string \<Rightarrow> string" where
  "getSubstitution mt str pos caps [] = []"
| "getSubstitution mt str pos caps [c] = [c]"
| "getSubstitution mt str pos caps (c # d # r) =
     (if c \<noteq> CHR ''$'' then c # getSubstitution mt str pos caps (d # r)
      else if d = CHR ''$'' then CHR ''$'' # getSubstitution mt str pos caps r
      else if d = CHR ''&'' then mt @ getSubstitution mt str pos caps r
      else if d = CHR 0x60 then take pos str @ getSubstitution mt str pos caps r
      else if d = CHR 0x27 then drop (pos + length mt) str @ getSubstitution mt str pos caps r
      else if isDigit d then
        (case r of
           e # r' \<Rightarrow>
             if isDigit e \<and> 1 \<le> 10 * digitVal d + digitVal e
                \<and> 10 * digitVal d + digitVal e \<le> length caps
             then capture caps (10 * digitVal d + digitVal e) @ getSubstitution mt str pos caps r'
             else if 1 \<le> digitVal d \<and> digitVal d \<le> length caps
             then capture caps (digitVal d) @ getSubstitution mt str pos caps r
             else c # getSubstitution mt str pos caps (d # r)
         | [] \<Rightarrow>
             if 1 \<le> digitVal d \<and> digitVal d \<le> length caps
             then capture caps (digitVal d)
             else [c, d])
      else c # getSubstitution mt str pos caps (d # r))"

definition indexOf :: "string \<Rightarrow> string \<Rightarrow> nat option" where
  "indexOf str pat =
     find (\<lambda>i. take (length pat) (drop i str) = pat) [0 ..< Suc (length str)]"

definition replaceStr :: "string \<Rightarrow> string \<Rightarrow> string \<Rightarrow> string" where
  \<comment> \<open>\<^verbatim>\<open>str.replace(pat, repl)\<close>, both strings: the first occurrence only\<close>
  "replaceStr str pat repl =
     (case indexOf str pat of
        None \<Rightarrow> str
      | Some pos \<Rightarrow>
          take pos str @ getSubstitution pat str pos [] repl @ drop (pos + length pat) str)"

definition replaceRe :: "item list \<Rightarrow> string \<Rightarrow> string \<Rightarrow> string" where
  \<comment> \<open>\<^verbatim>\<open>str.replace(regex, repl)\<close>, no flag \<^verbatim>\<open>g\<close>, \<^verbatim>\<open>repl\<close> a string\<close>
  "replaceRe items str repl =
     (case exec items str 0 of
        None \<Rightarrow> str
      | Some m \<Rightarrow>
          take (index m) str @ getSubstitution (matched m) str (index m) (captures m) repl
            @ drop (matchEnd m) str)"

definition replaceReFn :: "item list \<Rightarrow> string \<Rightarrow> (rmatch \<Rightarrow> string) \<Rightarrow> string" where
  \<comment> \<open>\<^verbatim>\<open>str.replace(regex, fn)\<close>, no flag \<^verbatim>\<open>g\<close>: the function's result is
      inserted as it is\<close>
  "replaceReFn items str fn =
     (case exec items str 0 of
        None \<Rightarrow> str
      | Some m \<Rightarrow> take (index m) str @ fn m @ drop (matchEnd m) str)"



section \<open>JavaScript values\<close>

text \<open>
  The values \<^verbatim>\<open>yaml.load\<close> returns. \<open>JNum w\<close> is the number \<open>sint w\<close>, an integer
  from \<^verbatim>\<open>-2^53\<close> to \<^verbatim>\<open>2^53 - 1\<close>: these are numbers a double holds exactly and the
  conversion to a string prints digit by digit. \<open>JMap\<close> is a mapping (a plain object), and
  \<open>JOther s\<close> any other value (a sequence, a date, a number with a fraction or outside
  that range), which is truthy and which a template literal prints as \<open>s\<close>.
\<close>

datatype jsval =
    JUndefined
  | JNull
  | JBool bool
  | JNum "54 word"
  | JNaN
  | JStr string
  | JMap "(string \<times> jsval) list"
  | JOther string

fun truthy :: "jsval \<Rightarrow> bool" where
  "truthy JUndefined = False"
| "truthy JNull = False"
| "truthy (JBool b) = b"
| "truthy (JNum n) = (n \<noteq> 0)"
| "truthy JNaN = False"
| "truthy (JStr s) = (s \<noteq> [])"
| "truthy (JMap kvs) = True"
| "truthy (JOther s) = True"

fun showNat :: "nat \<Rightarrow> string" where
  "showNat n = (if n < 10 then [char_of (48 + n)] else showNat (n div 10) @ [char_of (48 + n mod 10)])"

declare showNat.simps [simp del]

fun toString :: "jsval \<Rightarrow> string" where
  \<comment> \<open>the conversion a template literal \<^verbatim>\<open>${v}\<close> applies\<close>
  "toString JUndefined = ''undefined''"
| "toString JNull = ''null''"
| "toString (JBool b) = (if b then ''true'' else ''false'')"
| "toString (JNum n) =
     (if sint n < 0 then CHR ''-'' # showNat (nat (- sint n)) else showNat (nat (sint n)))"
| "toString JNaN = ''NaN''"
| "toString (JStr s) = s"
| "toString (JMap kvs) = ''[object Object]''"
| "toString (JOther s) = s"

fun getProp :: "jsval \<Rightarrow> string \<Rightarrow> jsval" where
  \<comment> \<open>\<^verbatim>\<open>v.key\<close> for the keys the program reads: a value that is not a mapping has none
      of them\<close>
  "getProp (JMap kvs) k = (case map_of kvs k of Some v \<Rightarrow> v | None \<Rightarrow> JUndefined)"
| "getProp v k = JUndefined"

datatype warning =
    YamlParseFailed string
  | TempDirFailed string
  | ImageNotFound string
  | PdfEmbedRecommended string
  | UnsupportedFormat string
  | ImageFailed string
  | PdfConvertFailed string
  | TempFileDeleteFailed string

section \<open>Front matter\<close>

definition yamlRegex :: "item list" where
  \<comment> \<open>\<^verbatim>\<open>/^---\s*\n([\s\S]*?)\n---\s*\n([\s\S]*)$/\<close>\<close>
  "yamlRegex =
     [Bol, Lit ''---'', Rep isSpace 0 None True, Lit ''\<newline>'',
      GOpen, Rep anyChar 0 None False, GClose,
      Lit ''\<newline>---'', Rep isSpace 0 None True, Lit ''\<newline>'',
      GOpen, Rep anyChar 0 None True, GClose, Eol]"

record front_matter_result =
  frontMatter :: jsval
  body :: string
  warned :: "warning list"

text \<open>
  \<open>load\<close> is \<^verbatim>\<open>yaml.load\<close> of js-yaml: \<open>Inl msg\<close> when it throws, with the
  message of the exception.
\<close>

definition parseYamlFrontMatter :: "(string \<Rightarrow> string + jsval) \<Rightarrow> string \<Rightarrow> front_matter_result" where
  "parseYamlFrontMatter load content =
     (case exec yamlRegex content 0 of
        None \<Rightarrow> \<lparr>frontMatter = JMap [], body = content, warned = []\<rparr>
      | Some m \<Rightarrow>
          (case load (capture (captures m) 1) of
             Inr v \<Rightarrow>
               \<lparr>frontMatter = (if truthy v then v else JMap []),
                body = capture (captures m) 2, warned = []\<rparr>
           | Inl msg \<Rightarrow>
               \<lparr>frontMatter = JMap [], body = content, warned = [YamlParseFailed msg]\<rparr>))"

section \<open>Fenced code blocks\<close>

record token =
  info :: string
  content :: string

text \<open>
  The rule \<^verbatim>\<open>md.renderer.rules.fence\<close> that \<^verbatim>\<open>buildMarkdownIt\<close> installs.
  \<open>baseFence\<close> is the rule it replaces, which renders every other block through the
  \<^verbatim>\<open>highlight\<close> callback.
\<close>

definition fence :: "(token \<Rightarrow> string) \<Rightarrow> token \<Rightarrow> string" where
  \<open>fence baseFence tok =
     (if toLowerCase (trim (info tok)) = ''mermaid''
      then ''<div class="mermaid">\<newline>'' @ content tok @ ''\<newline></div>\<newline>''
      else baseFence tok)\<close>

section \<open>Metadata block\<close>

definition studentIdLabel :: string where
  \<comment> \<open>the label of the identifier line, four characters beyond the 8-bit range, kept as
      their UTF-8 bytes; no comparison or pattern of the program inspects it\<close>
  "studentIdLabel =
     [CHR 0xE5, CHR 0xAD, CHR 0xA6, CHR 0xE7, CHR 0xB1, CHR 0x8D,
      CHR 0xE7, CHR 0x95, CHR 0xAA, CHR 0xE5, CHR 0x8F, CHR 0xB7]"

definition generateMetaInfo :: "jsval \<Rightarrow> string" where
  \<open>generateMetaInfo fm =
     (let fm' = (if truthy fm then fm else JMap []);
          author = getProp fm' ''author'';
          affiliation = getProp fm' ''affiliation'';
          student_id = getProp fm' ''student_id''
      in if \<not> truthy author \<and> \<not> truthy affiliation \<and> \<not> truthy student_id then []
         else ''\<newline>  <div class="document-meta">\<newline>    ''
           @ (if truthy student_id
              then ''<div class="meta-student-id">'' @ studentIdLabel @ '': ''
                     @ toString student_id @ ''</div>''
              else [])
           @ ''\<newline>    ''
           @ (if truthy author
              then ''<div class="meta-author">'' @ toString author @ ''</div>'' else [])
           @ ''\<newline>    ''
           @ (if truthy affiliation
              then ''<div class="meta-affiliation">'' @ toString affiliation @ ''</div>''
              else [])
           @ ''\<newline>  </div>'')\<close>

definition h1Regex :: "item list" where
  \<comment> \<open>\<^verbatim>\<open>/(<h1[^>]*>.*?<\/h1>)/s\<close>\<close>
  "h1Regex =
     [GOpen, Lit ''<h1'', Rep notGt 0 None True, Lit ''>'', Rep anyChar 0 None False,
      Lit ''</h1>'', GClose]"

definition insertAfterFirstH1 :: "string \<Rightarrow> string \<Rightarrow> string" where
  "insertAfterFirstH1 html metaHtml =
     (if metaHtml = [] then html else replaceRe h1Regex html (''$1'' @ metaHtml))"

section \<open>Document assembly\<close>




datatype error =
    TemplateNotFound
  | ReadFailed string





section \<open>Base64\<close>

text \<open>
  \<^verbatim>\<open>buffer.toString("base64")\<close> is the Base64 encoding of RFC 4648, with padding;
  \<open>b64decode\<close> is the strict decoder of the same encoding.
\<close>

type_synonym byte = "8 word"

definition b64char :: "nat \<Rightarrow> char" where
  "b64char i =
     (if i < 26 then char_of (65 + i)
      else if i < 52 then char_of (71 + i)
      else if i < 62 then char_of (i - 4)
      else if i = 62 then CHR ''+'' else CHR ''/'')"

fun base64 :: "byte list \<Rightarrow> string" where
  "base64 (a # b # c # r) =
     [b64char (unat a div 4), b64char (unat a mod 4 * 16 + unat b div 16),
      b64char (unat b mod 16 * 4 + unat c div 64), b64char (unat c mod 64)] @ base64 r"
| "base64 [a, b] =
     [b64char (unat a div 4), b64char (unat a mod 4 * 16 + unat b div 16),
      b64char (unat b mod 16 * 4), CHR ''='']"
| "base64 [a] = [b64char (unat a div 4), b64char (unat a mod 4 * 16), CHR ''='', CHR ''='']"
| "base64 [] = []"

definition b64index :: "char \<Rightarrow> nat option" where
  "b64index c =
     (let n = (of_char c :: nat) in
        if 65 \<le> n \<and> n \<le> 90 then Some (n - 65)
        else if 97 \<le> n \<and> n \<le> 122 then Some (n - 71)
        else if 48 \<le> n \<and> n \<le> 57 then Some (n + 4)
        else if c = CHR ''+'' then Some 62
        else if c = CHR ''/'' then Some 63
        else None)"

fun b64decode :: "string \<Rightarrow> byte list option" where
  "b64decode [] = Some []"
| "b64decode (w # x # y # z # r) =
     (case (b64index w, b64index x) of
        (Some p, Some q) \<Rightarrow>
          if y = CHR ''='' \<and> z = CHR ''='' \<and> r = []
          then (if q mod 16 = 0 then Some [of_nat (p * 4 + q div 16)] else None)
          else (case b64index y of
                  None \<Rightarrow> None
                | Some s \<Rightarrow>
                    if z = CHR ''='' \<and> r = []
                    then (if s mod 4 = 0
                          then Some [of_nat (p * 4 + q div 16), of_nat (q mod 16 * 16 + s div 4)]
                          else None)
                    else (case b64index z of
                            None \<Rightarrow> None
                          | Some u \<Rightarrow>
                              map_option
                                (\<lambda>bs. of_nat (p * 4 + q div 16) # of_nat (q mod 16 * 16 + s div 4)
                                        # of_nat (s mod 4 * 64 + u) # bs)
                                (b64decode r)))
      | _ \<Rightarrow> None)"
| "b64decode _ = None"

section \<open>Images\<close>

record stats =
  st_isFile :: bool
  st_size :: nat

datatype proc_result =
    Closed int string
  | SpawnError bool string int string

text \<open>
  What \<^verbatim>\<open>processImages\<close> reads from outside: the file system (\<open>None\<close> where the
  promise is rejected), the functions of the modules \<^verbatim>\<open>path\<close> and \<^verbatim>\<open>url\<close>, the
  clock and the process \<^verbatim>\<open>pdftocairo\<close>: \<open>Closed code stderr\<close> when it runs and
  the event \<^verbatim>\<open>close\<close> gives its exit code, \<open>SpawnError enoent message code stderr\<close>
  when it cannot be started, where the event \<^verbatim>\<open>error\<close> is followed by the event
  \<^verbatim>\<open>close\<close> with an exit code that is not zero. The file system does not change during
  one call.
\<close>

record env =
  fs_stat :: "string \<Rightarrow> stats option"
  fs_readFile :: "string \<Rightarrow> byte list option"
  fs_readFileUtf8 :: "string \<Rightarrow> string option"
  fs_mkdirFails :: "string \<Rightarrow> bool"
  fs_unlinkFails :: "string \<Rightarrow> bool"
  path_isAbsolute :: "string \<Rightarrow> bool"
  path_resolve :: "string \<Rightarrow> string \<Rightarrow> string"
  path_extname :: "string \<Rightarrow> string"
  path_join :: "string \<Rightarrow> string \<Rightarrow> string"
  path_basename :: "string \<Rightarrow> string \<Rightarrow> string"
  url_href :: "string \<Rightarrow> string option"
  dateNow :: string
  spawnPdftocairo :: "string \<Rightarrow> string \<Rightarrow> proc_result"

datatype image_info =
    Svg string
  | Base64 string
  | File string

record resolved =
  outcome :: "error + image_info option"
  logged :: "warning list"
  temps :: "string list"

text \<open>
  \<^verbatim>\<open>convertPdfToSvg\<close> resolves to the path of the converted file, or to
  \<^verbatim>\<open>null\<close> with a warning; the installation hints that follow some of the warnings in
  the log are part of the one value \<open>PdfConvertFailed\<close>. When the process cannot be
  started both handlers run, the one of \<^verbatim>\<open>error\<close> and then the one of \<^verbatim>\<open>close\<close>,
  and each writes its warning; the promise is resolved by the first.
\<close>

definition convertPdfToSvg :: "env \<Rightarrow> string \<Rightarrow> string \<Rightarrow> string option \<times> warning list" where
  "convertPdfToSvg e pdfPath outputDir =
     (let svgPath = path_join e outputDir
                      (path_basename e pdfPath ''.pdf'' @ ''_'' @ dateNow e @ ''.svg'');
          onClose = (\<lambda>code.
             if code = 0
             then (case fs_stat e svgPath of
                     Some st \<Rightarrow>
                       if st_isFile st then (Some svgPath, [])
                       else (None, [PdfConvertFailed svgPath])
                   | None \<Rightarrow> (None, [PdfConvertFailed svgPath]))
             else (None, [PdfConvertFailed pdfPath]))
      in case spawnPdftocairo e pdfPath svgPath of
           Closed code stderr \<Rightarrow> onClose code
         | SpawnError enoent msg code stderr \<Rightarrow>
             (None, PdfConvertFailed pdfPath # snd (onClose code)))"

definition httpRegex :: "item list" where
  \<comment> \<open>\<^verbatim>\<open>/^https?:\/\//i\<close>\<close>
  "httpRegex =
     [Bol, LitI ''http'', Rep (\<lambda>c. c = CHR ''s'' \<or> c = CHR ''S'') 0 (Some 1) True, Lit ''://'']"

definition imgRegex :: "item list" where
  \<comment> \<open>\<^verbatim>\<open>/<img\s+([^>]*?)src=["']([^"']+)["']([^>]*?)>/g\<close>\<close>
  "imgRegex =
     [Lit ''<img'', Rep isSpace 1 None True, GOpen, Rep notGt 0 None False, GClose,
      Lit ''src='', Rep isQuote 1 (Some 1) True, GOpen, Rep notQuote 1 None True, GClose,
      Rep isQuote 1 (Some 1) True, GOpen, Rep notGt 0 None False, GClose, Lit ''>'']"

definition supportedExts :: "string list" where
  "supportedExts = [''png'', ''jpg'', ''jpeg'', ''gif'', ''svg'', ''webp'']"

definition fileSizeMB :: "nat \<Rightarrow> real" where
  \<comment> \<open>\<^verbatim>\<open>size / 1024 / 1024\<close>: a division by a power of two, exact in floating point\<close>
  "fileSizeMB n = real n / 1024 / 1024"

definition fileRef :: "env \<Rightarrow> string \<Rightarrow> warning list \<Rightarrow> resolved" where
  \<comment> \<open>\<^verbatim>\<open>new URL(`file://${absPath}`).href\<close>; when the constructor throws, the
      \<^verbatim>\<open>catch\<close> of the loop body warns\<close>
  "fileRef e absPath ws =
     (case url_href e absPath of
        None \<Rightarrow> \<lparr>outcome = Inr None, logged = ws @ [ImageFailed absPath], temps = []\<rparr>
      | Some href \<Rightarrow> \<lparr>outcome = Inr (Some (File href)), logged = ws, temps = []\<rparr>)"

definition readBase64 :: "env \<Rightarrow> string \<Rightarrow> string \<Rightarrow> warning list \<Rightarrow> string list \<Rightarrow> resolved" where
  \<comment> \<open>the task \<^verbatim>\<open>fsp.readFile(p).then(buffer => imageMap.set(src, ...))\<close>\<close>
  "readBase64 e p mimeType ws ts =
     (case fs_readFile e p of
        None \<Rightarrow> \<lparr>outcome = Inl (ReadFailed p), logged = ws, temps = ts\<rparr>
      | Some buffer \<Rightarrow>
          \<lparr>outcome = Inr (Some (Base64 (''data:'' @ mimeType @ '';base64,'' @ base64 buffer))),
           logged = ws, temps = ts\<rparr>)"

definition readSvg :: "env \<Rightarrow> string \<Rightarrow> warning list \<Rightarrow> string list \<Rightarrow> resolved" where
  \<comment> \<open>the task \<^verbatim>\<open>fsp.readFile(p, "utf8").then(svgContent => imageMap.set(src, ...))\<close>\<close>
  "readSvg e p ws ts =
     (case fs_readFileUtf8 e p of
        None \<Rightarrow> \<lparr>outcome = Inl (ReadFailed p), logged = ws, temps = ts\<rparr>
      | Some svgContent \<Rightarrow> \<lparr>outcome = Inr (Some (Svg svgContent)), logged = ws, temps = ts\<rparr>)"

definition pdfTask :: "env \<Rightarrow> string \<Rightarrow> string \<Rightarrow> resolved" where
  "pdfTask e tempDir absPath =
     (case convertPdfToSvg e absPath tempDir of
        (None, ws) \<Rightarrow> \<lparr>outcome = Inr None, logged = ws, temps = []\<rparr>
      | (Some svgPath, ws) \<Rightarrow>
          (case fs_stat e svgPath of
             None \<Rightarrow> \<lparr>outcome = Inl (ReadFailed svgPath), logged = ws, temps = [svgPath]\<rparr>
           | Some svgStat \<Rightarrow>
               if fileSizeMB (st_size svgStat) > 1.0
               then readBase64 e svgPath ''image/svg+xml'' ws [svgPath]
               else readSvg e svgPath ws [svgPath]))"

text \<open>
  One turn of the loop over the keys of \<^verbatim>\<open>imageMap\<close>, together with the task it
  starts: \<open>Inr (Some i)\<close> is the entry set for the key, \<open>Inr None\<close> no entry, and
  \<open>Inl\<close> a task whose promise is rejected, which \<^verbatim>\<open>Promise.all\<close> passes on.
\<close>

definition resolveImage :: "env \<Rightarrow> string \<Rightarrow> bool \<Rightarrow> string \<Rightarrow> string \<Rightarrow> resolved" where
  "resolveImage e baseDir embedBase64 tempDir src =
     (if test httpRegex src then \<lparr>outcome = Inr None, logged = [], temps = []\<rparr>
      else
        let absPath = (if path_isAbsolute e src then src else path_resolve e baseDir src)
        in case fs_stat e absPath of
             None \<Rightarrow> \<lparr>outcome = Inr None, logged = [ImageNotFound absPath], temps = []\<rparr>
           | Some st \<Rightarrow>
               if \<not> st_isFile st
               then \<lparr>outcome = Inr None, logged = [ImageNotFound absPath], temps = []\<rparr>
               else
                 let ext = toLowerCase (drop 1 (path_extname e absPath))
                 in if ext = ''pdf''
                    then (if embedBase64 then pdfTask e tempDir absPath
                          else fileRef e absPath [PdfEmbedRecommended absPath])
                    else if ext \<notin> set supportedExts
                    then \<lparr>outcome = Inr None, logged = [UnsupportedFormat ext], temps = []\<rparr>
                    else if ext = ''svg''
                    then (if fileSizeMB (st_size st) > 1.0
                          then (if embedBase64
                                then readBase64 e absPath ''image/svg+xml'' [] []
                                else fileRef e absPath [])
                          else readSvg e absPath [] [])
                    else if embedBase64
                    then readBase64 e absPath
                           (''image/'' @ (if ext = ''jpg'' then ''jpeg'' else ext)) [] []
                    else fileRef e absPath [])"

record img_match =
  fullMatch :: string
  beforeSrc :: string
  src :: string
  afterSrc :: string

definition imageMatches :: "string \<Rightarrow> img_match list option" where
  \<comment> \<open>the loop that collects \<^verbatim>\<open>imageMatches\<close>\<close>
  "imageMatches html =
     map_option
       (map (\<lambda>m. \<lparr>fullMatch = matched m, beforeSrc = capture (captures m) 1,
                   src = capture (captures m) 2, afterSrc = capture (captures m) 3\<rparr>))
       (execAll imgRegex html 0)"

definition mapKeys :: "string list \<Rightarrow> string list" where
  \<comment> \<open>the keys of a \<^verbatim>\<open>Map\<close> after \<^verbatim>\<open>set\<close> of each element: insertion order,
      each key once\<close>
  "mapKeys ks = foldl (\<lambda>acc k. if k \<in> set acc then acc else acc @ [k]) [] ks"

fun mapSet :: "(string \<times> string) list \<Rightarrow> string \<Rightarrow> string \<Rightarrow> (string \<times> string) list" where
  "mapSet [] k v = [(k, v)]"
| "mapSet ((k', v') # kvs) k v = (if k' = k then (k, v) # kvs else (k', v') # mapSet kvs k v)"

definition attrRegex :: "item list" where
  \<comment> \<open>\<^verbatim>\<open>/(\w+)=["']([^"']+)["']/g\<close>\<close>
  "attrRegex =
     [GOpen, Rep isWordChar 1 None True, GClose, Lit ''='', Rep isQuote 1 (Some 1) True,
      GOpen, Rep notQuote 1 None True, GClose, Rep isQuote 1 (Some 1) True]"

definition svgOpenRegex :: "item list" where
  \<comment> \<open>\<^verbatim>\<open>/<svg([^>]*?)>/i\<close>\<close>
  "svgOpenRegex = [LitI ''<svg'', GOpen, Rep notGt 0 None False, GClose, Lit ''>'']"

definition widthRegex :: "item list" where
  \<comment> \<open>\<^verbatim>\<open>/width\s*=/i\<close>\<close>
  "widthRegex = [LitI ''width'', Rep isSpace 0 None True, Lit ''='']"

definition heightRegex :: "item list" where
  \<comment> \<open>\<^verbatim>\<open>/height\s*=/i\<close>\<close>
  "heightRegex = [LitI ''height'', Rep isSpace 0 None True, Lit ''='']"

definition titleRegex :: "item list" where
  \<comment> \<open>\<^verbatim>\<open>/<title>/i\<close>\<close>
  "titleRegex = [LitI ''<title>'']"

definition attrMapOf :: "string \<Rightarrow> (string \<times> string) list option" where
  "attrMapOf allAttributes =
     map_option
       (foldl (\<lambda>m a. mapSet m (toLowerCase (capture (captures a) 1)) (capture (captures a) 2)) [])
       (execAll attrRegex allAttributes 0)"

fun joinWith :: "string \<Rightarrow> string list \<Rightarrow> string" where
  "joinWith sep [] = []"
| "joinWith sep [x] = x"
| "joinWith sep (x # y # ys) = x @ sep @ joinWith sep (y # ys)"

definition spliceSvg :: "img_match \<Rightarrow> string \<Rightarrow> string option" where
  \<open>spliceSvg im svgContent0 =
     (case attrMapOf (trim (beforeSrc im @ afterSrc im)) of
        None \<Rightarrow> None
      | Some attrMap \<Rightarrow>
          Some
           (let c1 = (case map_of attrMap ''width'' of
                        None \<Rightarrow> svgContent0
                      | Some w \<Rightarrow>
                          replaceReFn svgOpenRegex svgContent0
                            (\<lambda>m. if \<not> test widthRegex (capture (captures m) 1)
                                 then ''<svg'' @ capture (captures m) 1 @ '' width="'' @ w @ ''">''
                                 else matched m));
                c2 = (case map_of attrMap ''height'' of
                        None \<Rightarrow> c1
                      | Some h \<Rightarrow>
                          replaceReFn svgOpenRegex c1
                            (\<lambda>m. if \<not> test heightRegex (capture (captures m) 1)
                                 then ''<svg'' @ capture (captures m) 1 @ '' height="'' @ h @ ''">''
                                 else matched m));
                c3 = (case map_of attrMap ''alt'' of
                        None \<Rightarrow> c2
                      | Some altText \<Rightarrow>
                          if \<not> test titleRegex c2
                          then replaceRe svgOpenRegex c2
                                 (''<svg$1><title>'' @ altText @ ''</title>'')
                          else c2);
                otherAttrs =
                  map (\<lambda>(k, v). k @ ''="'' @ v @ ''"'')
                    (filter (\<lambda>(k, v). k \<notin> set [''width'', ''height'', ''alt'', ''src'']) attrMap)
            in if length otherAttrs > 0
               then replaceReFn svgOpenRegex c3
                      (\<lambda>m. ''<svg'' @ capture (captures m) 1 @ '' '' @ joinWith '' '' otherAttrs
                             @ ''>'')
               else c3))\<close>

text \<open>The substitution pass over \<^verbatim>\<open>imageMatches\<close>.\<close>

fun substitute :: "(string \<Rightarrow> image_info option) \<Rightarrow> string \<Rightarrow> img_match list \<Rightarrow> string option" where
  \<open>substitute imageMap res [] = Some res\<close>
| \<open>substitute imageMap res (im # ims) =
     (case imageMap (src im) of
        None \<Rightarrow> substitute imageMap res ims
      | Some (Svg c) \<Rightarrow>
          (case spliceSvg im c of
             None \<Rightarrow> None
           | Some svgContent \<Rightarrow>
               substitute imageMap (replaceStr res (fullMatch im) svgContent) ims)
      | Some (Base64 c) \<Rightarrow>
          substitute imageMap
            (replaceStr res (fullMatch im)
               (''<img'' @ beforeSrc im @ ''src="'' @ c @ ''"'' @ afterSrc im @ ''>'')) ims
      | Some (File c) \<Rightarrow>
          substitute imageMap
            (replaceStr res (fullMatch im)
               (''<img'' @ beforeSrc im @ ''src="'' @ c @ ''"'' @ afterSrc im @ ''>'')) ims)\<close>

definition imageMapOf :: "(string \<times> resolved) list \<Rightarrow> string \<Rightarrow> image_info option" where
  \<comment> \<open>\<^verbatim>\<open>imageMap.get(k)\<close> once every task has settled\<close>
  "imageMapOf rs k =
     (case map_of rs k of
        None \<Rightarrow> None
      | Some r \<Rightarrow> (case outcome r of Inl err \<Rightarrow> None | Inr i \<Rightarrow> i))"

record images_result =
  returned :: "error + string"
  warnings :: "warning list"

text \<open>
  \<^verbatim>\<open>processImages\<close>. \<open>None\<close>: one of its loops never ends. \<open>returned\<close> is
  \<open>Inl\<close> when the promise is rejected, which happens when a task is. The warnings of
  the loop and of the tasks are listed key by key; the messages written at the level
  \<^verbatim>\<open>info\<close> and the removal of the temporary directory are left out.
\<close>

definition processImages :: "env \<Rightarrow> string \<Rightarrow> string \<Rightarrow> bool \<Rightarrow> images_result option" where
  "processImages e html baseDir embedBase64 =
     (case imageMatches html of
        None \<Rightarrow> None
      | Some ims \<Rightarrow>
          (let tempDir = path_join e baseDir ''.md2pdf_temp'';
               w0 = (if fs_mkdirFails e tempDir then [TempDirFailed tempDir] else []);
               rs = map (\<lambda>k. (k, resolveImage e baseDir embedBase64 tempDir k))
                      (mapKeys (map src ims));
               w1 = concat (map (\<lambda>(k, r). logged r) rs)
           in (case firstSome (\<lambda>(k, r). case outcome r of Inl err \<Rightarrow> Some err | Inr i \<Rightarrow> None) rs of
                 Some err \<Rightarrow> Some \<lparr>returned = Inl err, warnings = w0 @ w1\<rparr>
               | None \<Rightarrow>
                   (case substitute (imageMapOf rs) html ims of
                      None \<Rightarrow> None
                    | Some out \<Rightarrow>
                        Some \<lparr>returned = Inr out,
                              warnings = w0 @ w1
                                @ map TempFileDeleteFailed
                                    (filter (fs_unlinkFails e)
                                       (concat (map (\<lambda>(k, r). temps r) rs)))\<rparr>))))"

section \<open>Notions used in the statements\<close>

text \<open>
  \<open>leadingBlank s\<close> is the length of the blank lines \<open>s\<close> begins with: of the white
  space at its start, up to the last line break in it.
\<close>

definition leadingBlank :: "string \<Rightarrow> nat" where
  "leadingBlank s =
     (let w = takeWhile isSpace s
      in length w - length (takeWhile (\<lambda>c. c \<noteq> CHR ''\<newline>'') (rev w)))"


text \<open>The raster formats and the media type registered for each.\<close>

definition rasterExts :: "string list" where
  "rasterExts = [''png'', ''jpg'', ''jpeg'', ''gif'', ''webp'']"

definition mediaType :: "string \<Rightarrow> string" where
  "mediaType ext =
     (if ext = ''png'' then ''image/png''
      else if ext = ''jpg'' \<or> ext = ''jpeg'' then ''image/jpeg''
      else if ext = ''gif'' then ''image/gif''
      else ''image/webp'')"

definition absPathOf :: "env \<Rightarrow> string \<Rightarrow> string \<Rightarrow> string" where
  \<comment> \<open>the path a reference is resolved to\<close>
  "absPathOf e baseDir s = (if path_isAbsolute e s then s else path_resolve e baseDir s)"


definition imageSources :: "string \<Rightarrow> string list" where
  \<comment> \<open>the sources of the image elements of a fragment, in document order\<close>
  "imageSources html = (case imageMatches html of None \<Rightarrow> [] | Some ims \<Rightarrow> map src ims)"


text \<open>\<open>occursIn c s\<close>: the text \<open>c\<close> occurs in \<open>s\<close> (\<^verbatim>\<open>s.includes(c)\<close>).\<close>

definition occursIn :: "string \<Rightarrow> string \<Rightarrow> bool" where
  "occursIn c s \<longleftrightarrow> indexOf s c \<noteq> None"

text \<open>
  The line of the metadata block for one field: the element of class \<open>cls\<close> around
  the label and the value, present when the value is truthy.
\<close>

definition metaLine :: "string \<Rightarrow> string \<Rightarrow> jsval \<Rightarrow> string" where
  \<open>metaLine cls label v =
     (if truthy v then ''<div class="'' @ cls @ ''">'' @ label @ toString v @ ''</div>'' else [])\<close>



section \<open>Sample inputs\<close>

text \<open>
  A loader for the examples below. On the texts it names it returns what
  \<^verbatim>\<open>yaml.load\<close> of js-yaml 4 returns there: a mapping, \<^verbatim>\<open>null\<close> for a document of
  comments only, \<^verbatim>\<open>undefined\<close> for white space only, and for the unclosed sequence an
  exception whose message is the reason, the position and the lines around it. Every
  other text is outside the examples; the loader fails there.
\<close>

definition sampleLoad :: "string \<Rightarrow> string + jsval" where
  "sampleLoad s =
     (if s = ''author: Jane'' then Inr (JMap [(''author'', JStr ''Jane'')])
      else if s = ''a: 1'' then Inr (JMap [(''a'', JNum 1)])
      else if s = ''# none'' then Inr JNull
      else if s = ''---\<newline># c'' then Inr JNull
      else if s = '' '' then Inr JUndefined
      else if s = ''a: [1''
      then Inl ''unexpected end of the stream within a flow collection (2:1)\<newline>\<newline> 1 | a: [1\<newline> 2 | \<newline>-----^''
      else Inl ''not an example'')"

text \<open>
  A directory \<^verbatim>\<open>/doc\<close> with a raster image of eight bytes (the PNG signature), a
  small vector image and a vector image of exactly 1 MiB; the functions of \<^verbatim>\<open>path\<close>
  are given as they act on these paths, and \<^verbatim>\<open>pdftocairo\<close> is not installed.
\<close>

definition pngBytes :: "byte list" where
  "pngBytes = [0x89, 0x50, 0x4E, 0x47, 0x0D, 0x0A, 0x1A, 0x0A]"

definition logoSvg :: string where
  \<open>logoSvg = ''<svg class="logo" viewBox="0 0 1 1"><g/></svg>''\<close>

definition bigSvg :: string where
  "bigSvg = ''<svg>'' @ replicate 1048565 (CHR '' '') @ ''</svg>''"

definition sampleExtname :: "string \<Rightarrow> string" where
  "sampleExtname p =
     (let r = takeWhile (\<lambda>c. c \<noteq> CHR ''.'') (rev p)
      in if length r < length p then CHR ''.'' # rev r else [])"

definition sampleEnv :: env where
  "sampleEnv =
     \<lparr>fs_stat = (\<lambda>p. if p = ''/doc/a.png'' then Some \<lparr>st_isFile = True, st_size = 8\<rparr>
                     else if p = ''/doc/logo.svg'' then Some \<lparr>st_isFile = True, st_size = 46\<rparr>
                     else if p = ''/doc/big.svg'' then Some \<lparr>st_isFile = True, st_size = 1048576\<rparr>
                     else if p = ''/doc/figures'' then Some \<lparr>st_isFile = False, st_size = 4096\<rparr>
                     else None),
      fs_readFile = (\<lambda>p. if p = ''/doc/a.png'' then Some pngBytes else None),
      fs_readFileUtf8 = (\<lambda>p. if p = ''/doc/logo.svg'' then Some logoSvg
                             else if p = ''/doc/big.svg'' then Some bigSvg
                             else None),
      fs_mkdirFails = (\<lambda>p. False),
      fs_unlinkFails = (\<lambda>p. False),
      path_isAbsolute = (\<lambda>p. take 1 p = ''/''),
      path_resolve = (\<lambda>d p. d @ ''/'' @ p),
      path_extname = sampleExtname,
      path_join = (\<lambda>d p. d @ ''/'' @ p),
      path_basename = (\<lambda>p ext. p),
      url_href = (\<lambda>p. Some (''file://'' @ p)),
      dateNow = ''1700000000000'',
      spawnPdftocairo = (\<lambda>p q. SpawnError True ''spawn pdftocairo ENOENT'' (- 2) [])\<rparr>"



section \<open>The matcher: general facts\<close>

lemma firstSome_None: "(\<And>x. x \<in> set xs \<Longrightarrow> f x = None) \<Longrightarrow> firstSome f xs = None"
  by (induction xs) auto

lemma firstSome_append:
  "firstSome f (xs @ ys) = (case firstSome f xs of Some y \<Rightarrow> Some y | None \<Rightarrow> firstSome f ys)"
  by (induction xs) (auto split: option.splits)







declare bt.simps [simp del]

lemma repCounts_mem:
  assumes "n \<in> set (repCounts p lo hi greedy s)"
  shows "lo \<le> n" and "n \<le> length (takeWhile p s)" and "\<And>h. hi = Some h \<Longrightarrow> n \<le> h"
  using assms by (auto simp: repCounts_def runLength_def Let_def split: option.splits if_splits)

lemma take_takeWhile_all:
  assumes "n \<le> length (takeWhile p s)"
  shows "\<forall>c \<in> set (take n s). p c"
proof -
  have "take n s = take n (takeWhile p s @ dropWhile p s)" by simp
  also have "\<dots> = take n (takeWhile p s)" using assms by (simp only: take_append) simp
  finally have "take n s = take n (takeWhile p s)" .
  then show ?thesis by (metis in_set_takeD set_takeWhileD)
qed

lemma bt_LitE:
  assumes "bt (Lit s # items) inp r opn caps = Some y"
  obtains r' where "r = s @ r'" and "bt items inp r' opn caps = Some y"
proof -
  from assms have t: "take (length s) r = s" and b: "bt items inp (drop (length s) r) opn caps = Some y"
    by (auto simp: bt.simps split: if_splits)
  from t have "r = s @ drop (length s) r" by (metis append_take_drop_id)
  with b that show ?thesis by blast
qed

lemma bt_RepE:
  assumes "bt (Rep p lo hi greedy # items) inp r opn caps = Some y"
  obtains w r' where "r = w @ r'" and "lo \<le> length w" and "\<forall>c \<in> set w. p c"
    and "bt items inp r' opn caps = Some y"
proof -
  from assms obtain n where n: "n \<in> set (repCounts p lo hi greedy r)"
    and b: "bt items inp (drop n r) opn caps = Some y"
    by (auto simp: bt.simps dest!: firstSome_SomeD)
  from repCounts_mem [OF n] have lo: "lo \<le> n" and le: "n \<le> length (takeWhile p r)" by auto
  have "n \<le> length r" using le by (meson le_trans length_takeWhile_le)
  then have "length (take n r) = n" by simp
  moreover have "r = take n r @ drop n r" by simp
  ultimately show ?thesis using that [of "take n r" "drop n r"] lo take_takeWhile_all [OF le] b
    by auto
qed

lemma exec_SomeD:
  assumes "exec items inp start = Some m"
  shows "\<exists>i. start \<le> i \<and> i \<le> length inp \<and> matchAt items inp i = Some m"
proof -
  from assms obtain i where "i \<in> set [start ..< Suc (length inp)]" "matchAt items inp i = Some m"
    unfolding exec_def by (blast dest: firstSome_SomeD)
  then show ?thesis by auto
qed

lemma yamlRegex_sound:
  assumes "exec yamlRegex T 0 = Some m"
  obtains w1 g1 w2 g2 where "T = ''---'' @ w1 @ ''\<newline>'' @ g1 @ ''\<newline>---'' @ w2 @ ''\<newline>'' @ g2"
    and "captures m = [g1, g2]" and "\<forall>c \<in> set w1. isSpace c" and "\<forall>c \<in> set w2. isSpace c"
proof -
  from exec_SomeD [OF assms] obtain i where i: "i \<le> length T"
    and mi: "matchAt yamlRegex T i = Some m" by blast
  from mi obtain rest caps where
    b: "bt yamlRegex T (drop i T) [] [] = Some (rest, caps)" and c: "captures m = caps"
    by (auto simp: matchAt_def split: option.splits)
  from b i have i0: "i = 0"
    by (auto simp: yamlRegex_def bt.simps(7) split: if_splits)
  with b have b1: "bt (tl yamlRegex) T T [] [] = Some (rest, caps)"
    by (auto simp: yamlRegex_def bt.simps(7) split: if_splits)
  from b1 obtain r1 where T1: "T = ''---'' @ r1"
    and b2: "bt (drop 2 yamlRegex) T r1 [] [] = Some (rest, caps)"
    unfolding yamlRegex_def by (auto elim!: bt_LitE)
  from b2 obtain w1 r2 where r1: "r1 = w1 @ r2" and w1: "\<forall>c \<in> set w1. isSpace c"
    and b3: "bt (drop 3 yamlRegex) T r2 [] [] = Some (rest, caps)"
    unfolding yamlRegex_def by (auto elim!: bt_RepE)
  from b3 obtain r3 where r2: "r2 = ''\<newline>'' @ r3"
    and b4: "bt (drop 4 yamlRegex) T r3 [] [] = Some (rest, caps)"
    unfolding yamlRegex_def by (auto elim!: bt_LitE)
  from b4 have b5: "bt (drop 5 yamlRegex) T r3 r3 [] = Some (rest, caps)"
    unfolding yamlRegex_def by (simp add: bt.simps(5,6))
  from b5 obtain g1 r4 where r3: "r3 = g1 @ r4"
    and b6: "bt (drop 6 yamlRegex) T r4 r3 [] = Some (rest, caps)"
    unfolding yamlRegex_def by (auto elim!: bt_RepE)
  from b6 r3 have b7: "bt (drop 7 yamlRegex) T r4 r3 [g1] = Some (rest, caps)"
    unfolding yamlRegex_def by (simp add: bt.simps(5,6))
  from b7 obtain r5 where r4: "r4 = ''\<newline>---'' @ r5"
    and b8: "bt (drop 8 yamlRegex) T r5 r3 [g1] = Some (rest, caps)"
    unfolding yamlRegex_def by (auto elim!: bt_LitE)
  from b8 obtain w2 r6 where r5: "r5 = w2 @ r6" and w2: "\<forall>c \<in> set w2. isSpace c"
    and b9: "bt (drop 9 yamlRegex) T r6 r3 [g1] = Some (rest, caps)"
    unfolding yamlRegex_def by (auto elim!: bt_RepE)
  from b9 obtain r7 where r6: "r6 = ''\<newline>'' @ r7"
    and b10: "bt (drop 10 yamlRegex) T r7 r3 [g1] = Some (rest, caps)"
    unfolding yamlRegex_def by (auto elim!: bt_LitE)
  from b10 have b11: "bt (drop 11 yamlRegex) T r7 r7 [g1] = Some (rest, caps)"
    unfolding yamlRegex_def by (simp add: bt.simps(5,6))
  from b11 obtain g2 r8 where r7: "r7 = g2 @ r8"
    and b12: "bt (drop 12 yamlRegex) T r8 r7 [g1] = Some (rest, caps)"
    unfolding yamlRegex_def by (auto elim!: bt_RepE)
  from b12 r7 have "r8 = []" and "caps = [g1, g2]"
    unfolding yamlRegex_def by (auto simp: bt.simps split: if_splits)
  with T1 r1 r2 r3 r4 r5 r6 r7 c w1 w2 that [of w1 g1 w2 g2] show ?thesis by simp
qed

lemma firstSome_greedy:
  assumes "lo \<le> j" and "j \<le> r" and "\<And>n. j < n \<Longrightarrow> n \<le> r \<Longrightarrow> f n = None" and "f j = Some y"
  shows "firstSome f (rev [lo ..< Suc r]) = Some y"
proof -
  have "[lo ..< Suc r] = [lo ..< j] @ [j ..< Suc r]"
    using upt_add_eq_append [of lo j "Suc r - j"] assms(1,2) by simp
  moreover have "[j ..< Suc r] = j # [Suc j ..< Suc r]"
    using upt_conv_Cons [of j "Suc r"] assms(2) by simp
  ultimately have "[lo ..< Suc r] = [lo ..< j] @ [j] @ [Suc j ..< Suc r]" by simp
  then have "rev [lo ..< Suc r] = rev [Suc j ..< Suc r] @ [j] @ rev [lo ..< j]" by simp
  moreover have "firstSome f (rev [Suc j ..< Suc r]) = None"
    by (rule firstSome_None) (use assms(3) in auto)
  ultimately show ?thesis using assms(4) by (simp add: firstSome_append)
qed

lemma firstSome_lazy:
  assumes "lo \<le> j" and "j \<le> r" and "\<And>n. lo \<le> n \<Longrightarrow> n < j \<Longrightarrow> f n = None" and "f j = Some y"
  shows "firstSome f [lo ..< Suc r] = Some y"
proof -
  have "[lo ..< Suc r] = [lo ..< j] @ [j ..< Suc r]"
    using upt_add_eq_append [of lo j "Suc r - j"] assms(1,2) by simp
  moreover have "[j ..< Suc r] = j # [Suc j ..< Suc r]"
    using upt_conv_Cons [of j "Suc r"] assms(2) by simp
  ultimately have "[lo ..< Suc r] = [lo ..< j] @ [j] @ [Suc j ..< Suc r]" by simp
  moreover have "firstSome f [lo ..< j] = None"
    by (rule firstSome_None) (use assms(3) in auto)
  ultimately show ?thesis using assms(4) by (simp add: firstSome_append)
qed

lemma bt_Rep_greedy:
  assumes "lo \<le> j" and "j \<le> runLength p hi r"
    and "\<And>n. j < n \<Longrightarrow> n \<le> runLength p hi r \<Longrightarrow> bt items inp (drop n r) opn caps = None"
    and "bt items inp (drop j r) opn caps = Some y"
  shows "bt (Rep p lo hi True # items) inp r opn caps = Some y"
  unfolding bt.simps repCounts_def Let_def
  using firstSome_greedy [where f = "\<lambda>n. bt items inp (drop n r) opn caps", OF assms] by simp

lemma bt_Rep_lazy:
  assumes "lo \<le> j" and "j \<le> runLength p hi r"
    and "\<And>n. lo \<le> n \<Longrightarrow> n < j \<Longrightarrow> bt items inp (drop n r) opn caps = None"
    and "bt items inp (drop j r) opn caps = Some y"
  shows "bt (Rep p lo hi False # items) inp r opn caps = Some y"
  unfolding bt.simps repCounts_def Let_def
  using firstSome_lazy [where f = "\<lambda>n. bt items inp (drop n r) opn caps", OF assms] by simp

lemma bt_rest_of_text:
  "bt [GOpen, Rep anyChar 0 None True, GClose, Eol] inp r opn caps = Some ([], caps @ [r])"
proof -
  have tw: "takeWhile anyChar r = r"
    by (simp add: takeWhile_eq_all_conv anyChar_def)
  have run: "runLength anyChar None r = length r"
    by (simp only: runLength_def Let_def option.case tw)
  have "bt [Rep anyChar 0 None True, GClose, Eol] inp r r caps = Some ([], caps @ [r])"
    by (rule bt_Rep_greedy [where j = "length r"]) (simp_all add: run bt.simps)
  then show ?thesis by (simp add: bt.simps)
qed

section \<open>The front matter expression\<close>

lemma leadingBlank_le: "leadingBlank B \<le> length (takeWhile isSpace B)"
  by (simp add: leadingBlank_def Let_def)

lemma leadingBlank_split:
  "\<exists>d t. takeWhile isSpace B = d @ t \<and> length d = leadingBlank B
     \<and> CHR ''\<newline>'' \<notin> set t \<and> (d \<noteq> [] \<longrightarrow> last d = CHR ''\<newline>'')"
proof -
  define w where "w = takeWhile isSpace B"
  define t' where "t' = takeWhile (\<lambda>c. c \<noteq> CHR ''\<newline>'') (rev w)"
  define d' where "d' = dropWhile (\<lambda>c. c \<noteq> CHR ''\<newline>'') (rev w)"
  have rw: "rev w = t' @ d'" by (simp add: t'_def d'_def)
  then have w: "w = rev d' @ rev t'" by (metis rev_append rev_rev_ident)
  have len: "length (rev d') = leadingBlank B"
    using arg_cong [OF rw, of length] by (simp add: leadingBlank_def Let_def w_def t'_def)
  have nt: "CHR ''\<newline>'' \<notin> set (rev t')"
    by (auto simp: t'_def dest: set_takeWhileD)
  have "d' \<noteq> [] \<Longrightarrow> hd d' = CHR ''\<newline>''"
    unfolding d'_def using hd_dropWhile [of "\<lambda>c. c \<noteq> CHR ''\<newline>''" "rev w"] by auto
  then have "rev d' \<noteq> [] \<Longrightarrow> last (rev d') = CHR ''\<newline>''"
    by (simp add: last_rev)
  with w len nt show ?thesis unfolding w_def by blast
qed

lemma leadingBlank_newline:
  assumes "0 < leadingBlank B"
  shows "leadingBlank B - 1 < length B" and "B ! (leadingBlank B - 1) = CHR ''\<newline>''"
proof -
  from leadingBlank_split [of B]
  obtain d t where w: "takeWhile isSpace B = d @ t" and len: "length d = leadingBlank B"
    and nt: "CHR ''\<newline>'' \<notin> set t" and la: "d \<noteq> [] \<Longrightarrow> last d = CHR ''\<newline>''"
    by blast
  from assms len have dne: "d \<noteq> []" by auto
  have lt: "leadingBlank B - 1 < length (takeWhile isSpace B)"
    using assms leadingBlank_le [of B] by simp
  then show "leadingBlank B - 1 < length B"
    by (meson length_takeWhile_le less_le_trans)
  have "B ! (leadingBlank B - 1) = takeWhile isSpace B ! (leadingBlank B - 1)"
    using lt by (simp add: takeWhile_nth)
  also have "\<dots> = (d @ t) ! (length d - 1)"
    by (simp only: w len)
  also have "\<dots> = d ! (length d - 1)"
    using dne by (simp add: nth_append)
  also have "\<dots> = CHR ''\<newline>''"
    using la [OF dne] dne by (simp add: last_conv_nth)
  finally show "B ! (leadingBlank B - 1) = CHR ''\<newline>''" .
qed

lemma leadingBlank_last:
  assumes "leadingBlank B \<le> n" and "n < length (takeWhile isSpace B)"
  shows "B ! n \<noteq> CHR ''\<newline>''"
proof -
  from leadingBlank_split [of B]
  obtain d t where w: "takeWhile isSpace B = d @ t" and len: "length d = leadingBlank B"
    and nt: "CHR ''\<newline>'' \<notin> set t" and la: "d \<noteq> [] \<Longrightarrow> last d = CHR ''\<newline>''"
    by blast
  have "B ! n = takeWhile isSpace B ! n"
    using assms(2) by (simp add: takeWhile_nth)
  also have "\<dots> = t ! (n - length d)"
    using assms(1) len by (simp add: w nth_append)
  finally have "B ! n \<in> set t"
    using assms w len by (metis add_diff_inverse_nat length_append nat_add_left_cancel_less nth_mem not_less)
  with nt show ?thesis by auto
qed

lemma isSpace_newline: "isSpace (CHR ''\<newline>'')"
  by (simp add: isSpace_def)

lemma closing_delimiter:
  "bt [Rep isSpace 0 None True, Lit ''\<newline>'', GOpen, Rep anyChar 0 None True, GClose, Eol]
      inp (CHR ''\<newline>'' # B) opn caps
   = Some ([], caps @ [drop (leadingBlank B) B])"
proof (rule bt_Rep_greedy [where j = "leadingBlank B"])
  have run: "runLength isSpace None (CHR ''\<newline>'' # B) = Suc (length (takeWhile isSpace B))"
    by (simp add: runLength_def isSpace_newline)
  show "0 \<le> leadingBlank B" by simp
  show "leadingBlank B \<le> runLength isSpace None (CHR ''\<newline>'' # B)"
    using leadingBlank_le [of B] by (simp add: run)
  show "bt [Lit ''\<newline>'', GOpen, Rep anyChar 0 None True, GClose, Eol] inp
          (drop n (CHR ''\<newline>'' # B)) opn caps = None"
    if "leadingBlank B < n" and "n \<le> runLength isSpace None (CHR ''\<newline>'' # B)" for n
  proof -
    from that obtain k where n: "n = Suc k" by (cases n) auto
    with that have k: "leadingBlank B \<le> k" "k \<le> length (takeWhile isSpace B)"
      by (auto simp: run)
    have "take 1 (drop k B) \<noteq> ''\<newline>''"
    proof (cases "k < length B")
      case False
      then show ?thesis by simp
    next
      case True
      then have dk: "drop k B = B ! k # drop (Suc k) B" by (simp add: Cons_nth_drop_Suc)
      show ?thesis
      proof (cases "k < length (takeWhile isSpace B)")
        case True
        with leadingBlank_last [OF k(1)] dk show ?thesis by simp
      next
        case False
        with k(2) have "k = length (takeWhile isSpace B)" by simp
        with \<open>k < length B\<close> have "\<not> isSpace (B ! k)"
          using nth_length_takeWhile [of isSpace B] by simp
        with isSpace_newline have "B ! k \<noteq> CHR ''\<newline>''" by auto
        with dk show ?thesis by simp
      qed
    qed
    then show ?thesis by (simp add: n bt.simps)
  qed
  show "bt [Lit ''\<newline>'', GOpen, Rep anyChar 0 None True, GClose, Eol] inp
          (drop (leadingBlank B) (CHR ''\<newline>'' # B)) opn caps
        = Some ([], caps @ [drop (leadingBlank B) B])"
  proof (cases "leadingBlank B")
    case 0
    then show ?thesis using bt_rest_of_text [of inp B opn caps] by (simp add: bt.simps(2,5))
  next
    case (Suc k)
    with leadingBlank_newline [of B] have "k < length B" "B ! k = CHR ''\<newline>''" by auto
    then have "drop k B = CHR ''\<newline>'' # drop (Suc k) B" by (metis Cons_nth_drop_Suc)
    then show ?thesis
      using bt_rest_of_text [of inp "drop (Suc k) B" opn caps] by (simp add: Suc bt.simps(2,5))
  qed
qed

lemma no_delimiter_inside:
  assumes nd: "\<forall>j. take 4 (drop j M) \<noteq> ''\<newline>---''" and n: "n < length M"
  shows "take 4 (drop n (M @ CHR ''\<newline>'' # D)) \<noteq> ''\<newline>---''"
proof
  assume eq: "take 4 (drop n (M @ CHR ''\<newline>'' # D)) = ''\<newline>---''"
  define l where "l = length M - n"
  have l0: "0 < l" using n by (simp add: l_def)
  show False
  proof (cases "4 \<le> l")
    case True
    then have "take 4 (drop n (M @ CHR ''\<newline>'' # D)) = take 4 (drop n M)"
      using n by (simp add: l_def)
    with eq nd show False by auto
  next
    case False
    with l0 have l: "l < 4" by simp
    have "take 4 (drop n (M @ CHR ''\<newline>'' # D)) ! l = drop n (M @ CHR ''\<newline>'' # D) ! l"
      using l by (rule nth_take)
    also have "\<dots> = (M @ CHR ''\<newline>'' # D) ! (n + l)"
      by (rule nth_drop) (use n in simp)
    also have "\<dots> = CHR ''\<newline>''"
      using n by (simp add: l_def nth_append)
    finally have "''\<newline>---'' ! l = CHR ''\<newline>''" using eq by simp
    moreover from l0 l have "l = 1 \<or> l = 2 \<or> l = 3" by auto
    ultimately show False by auto
  qed
qed

lemma opening_line_only:
  assumes ns: "\<exists>c \<in> set M. \<not> isSpace c" and nl: "CHR ''\<newline>'' \<notin> set (takeWhile isSpace M)"
    and k: "k \<le> length (takeWhile isSpace (M @ D))"
  shows "take 1 (drop k (M @ D)) \<noteq> ''\<newline>''"
proof -
  from ns obtain c where c: "c \<in> set M" "\<not> isSpace c" by blast
  then have tw: "takeWhile isSpace (M @ D) = takeWhile isSpace M"
    by (simp add: takeWhile_append1)
  have lt: "length (takeWhile isSpace M) < length M"
    using c by (induction M) auto
  with k tw have kM: "k < length M" by simp
  then have dk: "drop k (M @ D) = M ! k # drop (Suc k) (M @ D)"
    using Cons_nth_drop_Suc [of k "M @ D"] by (simp add: nth_append)
  have "M ! k \<noteq> CHR ''\<newline>''"
  proof (cases "k < length (takeWhile isSpace M)")
    case True
    then have "M ! k \<in> set (takeWhile isSpace M)"
      using nth_mem [of k "takeWhile isSpace M"] by (simp add: takeWhile_nth)
    with nl show ?thesis by auto
  next
    case False
    with k tw have "k = length (takeWhile isSpace M)" by simp
    with lt have "\<not> isSpace (M ! k)"
      using nth_length_takeWhile [of isSpace M] by simp
    with isSpace_newline show ?thesis by auto
  qed
  with dk show ?thesis by simp
qed

lemma exec_at_start:
  assumes "matchAt items inp s = Some m" and "s \<le> length inp"
  shows "exec items inp s = Some m"
proof -
  have "[s ..< Suc (length inp)] = s # [Suc s ..< Suc (length inp)]"
    by (rule upt_conv_Cons) (use assms(2) in simp)
  then show ?thesis unfolding exec_def using assms(1) by (simp only: firstSome.simps option.case)
qed

lemma bt_Lit_append: "bt (Lit s # items) inp (s @ r) opn caps = bt items inp r opn caps"
  by (simp add: bt.simps)

lemma bt_Lit_None: "take (length s) r \<noteq> s \<Longrightarrow> bt (Lit s # items) inp r opn caps = None"
  by (simp add: bt.simps)

lemma bt_GClose_append:
  "bt (GClose # items) inp r (g @ r) caps = bt items inp r (g @ r) (caps @ [g])"
  by (simp add: bt.simps)

lemma yamlRegex_delimited:
  assumes ns: "\<exists>c \<in> set M. \<not> isSpace c" and nl: "CHR ''\<newline>'' \<notin> set (takeWhile isSpace M)"
    and nd: "\<forall>j. take 4 (drop j M) \<noteq> ''\<newline>---''"
  shows "exec yamlRegex (''---\<newline>'' @ M @ ''\<newline>---\<newline>'' @ B) 0
         = Some \<lparr>index = 0, matched = ''---\<newline>'' @ M @ ''\<newline>---\<newline>'' @ B,
                 captures = [M, drop (leadingBlank B) B]\<rparr>"
proof -
  define D where "D = ''\<newline>---'' @ CHR ''\<newline>'' # B"
  define Y where "Y = M @ D"
  define T where "T = ''---'' @ ''\<newline>'' @ Y"
  let ?res = "Some ([] :: string, [M, drop (leadingBlank B) B])"
  let ?close = "[Rep isSpace 0 None True, Lit ''\<newline>'', GOpen, Rep anyChar 0 None True, GClose, Eol]"
  have len4: "length ''\<newline>---'' = 4" by simp
  have c3: "bt ?close T (CHR ''\<newline>'' # B) Y ([] @ [M]) = ?res"
    using closing_delimiter [of T B Y "[M]"] by simp
  have c2: "bt (GClose # Lit ''\<newline>---'' # ?close) T D Y [] = ?res"
    unfolding Y_def bt_GClose_append unfolding D_def bt_Lit_append
    using c3 unfolding Y_def D_def .
  have twY: "takeWhile anyChar Y = Y"
    by (simp add: takeWhile_eq_all_conv anyChar_def)
  have runY: "runLength anyChar None Y = length Y"
    by (simp only: runLength_def Let_def option.case twY)
  have c1: "bt (Rep anyChar 0 None False # GClose # Lit ''\<newline>---'' # ?close) T Y Y [] = ?res"
  proof (rule bt_Rep_lazy [where j = "length M"])
    show "0 \<le> length M" by simp
    show "length M \<le> runLength anyChar None Y" unfolding runY by (simp add: Y_def)
    have "drop (length M) Y = D" by (simp add: Y_def)
    then show "bt (GClose # Lit ''\<newline>---'' # ?close) T (drop (length M) Y) Y [] = ?res"
      using c2 by simp
    show "bt (GClose # Lit ''\<newline>---'' # ?close) T (drop n Y) Y [] = None"
      if "n < length M" for n
    proof -
      have "take 4 (drop n Y) \<noteq> ''\<newline>---''"
        using no_delimiter_inside [OF nd that, of "''---'' @ CHR ''\<newline>'' # B"]
        unfolding Y_def D_def by simp
      then have "take (length ''\<newline>---'') (drop n Y) \<noteq> ''\<newline>---''"
        unfolding len4 .
      then show ?thesis
        unfolding bt.simps(6) by (rule bt_Lit_None)
    qed
  qed
  let ?open = "Lit ''\<newline>'' # GOpen # Rep anyChar 0 None False # GClose # Lit ''\<newline>---'' # ?close"
  have runNY: "runLength isSpace None (CHR ''\<newline>'' # Y) = Suc (length (takeWhile isSpace Y))"
    by (simp add: runLength_def isSpace_newline)
  have c0: "bt (Rep isSpace 0 None True # ?open) T (''\<newline>'' @ Y) [] [] = ?res"
  proof (rule bt_Rep_greedy [where j = 0])
    show "(0::nat) \<le> 0" by simp
    show "0 \<le> runLength isSpace None (''\<newline>'' @ Y)" by simp
    have "bt ?open T (''\<newline>'' @ Y) [] [] = ?res"
      unfolding bt_Lit_append bt.simps(5) by (rule c1)
    then show "bt ?open T (drop 0 (''\<newline>'' @ Y)) [] [] = ?res" by simp
    show "bt ?open T (drop n (''\<newline>'' @ Y)) [] [] = None"
      if "0 < n" and "n \<le> runLength isSpace None (''\<newline>'' @ Y)" for n
    proof -
      from that obtain k where n: "n = Suc k" by (cases n) auto
      with that runNY have "k \<le> length (takeWhile isSpace Y)" by simp
      then have "k \<le> length (takeWhile isSpace (M @ D))" unfolding Y_def .
      from opening_line_only [OF ns nl this]
      have "take (length ''\<newline>'') (drop k Y) \<noteq> ''\<newline>''" by (simp add: Y_def)
      then have "bt ?open T (drop k Y) [] [] = None" by (rule bt_Lit_None)
      then show ?thesis by (simp add: n)
    qed
  qed
  have "bt (Bol # Lit ''---'' # Rep isSpace 0 None True # ?open) T T [] [] = ?res"
    unfolding bt.simps(7) using c0 by (simp add: T_def bt_Lit_append [of "''---''", simplified])
  then have b: "bt yamlRegex T T [] [] = ?res"
    by (simp add: yamlRegex_def)
  have m: "matchAt yamlRegex T 0
           = Some \<lparr>index = 0, matched = T, captures = [M, drop (leadingBlank B) B]\<rparr>"
    by (simp add: matchAt_def b)
  have "exec yamlRegex T 0
             = Some \<lparr>index = 0, matched = T, captures = [M, drop (leadingBlank B) B]\<rparr>"
    by (rule exec_at_start [OF m]) simp
  moreover have "T = ''---\<newline>'' @ M @ ''\<newline>---\<newline>'' @ B"
    by (simp add: T_def Y_def D_def)
  ultimately show ?thesis by simp
qed

section \<open>Base64: the round trip\<close>

lemma of_char_b64char:
  "i < 64 \<Longrightarrow> (of_char (b64char i) :: nat)
     = (if i < 26 then 65 + i else if i < 52 then 71 + i else if i < 62 then i - 4
        else if i = 62 then 43 else 47)"
  by (simp add: b64char_def)

lemma b64char_neq:
  assumes "i < 64" and "(of_char c :: nat) \<notin> {65 .. 90} \<union> {97 .. 122} \<union> {48 .. 57} \<union> {43, 47}"
  shows "b64char i \<noteq> c"
proof
  assume "b64char i = c"
  then have "(of_char (b64char i) :: nat) = of_char c" by simp
  with assms show False by (auto simp: of_char_b64char split: if_splits)
qed

lemma b64char_not_pad: "i < 64 \<Longrightarrow> b64char i \<noteq> CHR ''=''"
  by (rule b64char_neq) simp_all

lemma b64index_b64char:
  assumes "i < 64"
  shows "b64index (b64char i) = Some i"
proof (cases "i < 62")
  case True
  then have "(of_char (b64char i) :: nat)
     = (if i < 26 then 65 + i else if i < 52 then 71 + i else i - 4)"
    using of_char_b64char [OF assms] by simp
  with True show ?thesis
    unfolding b64index_def Let_def by (auto split: if_splits)
next
  case False
  with assms have "i = 62 \<or> i = 63" by auto
  then show ?thesis by (auto simp: b64index_def b64char_def)
qed

lemma byte_lt: "unat (a :: byte) < 256"
proof -
  have "unat a < 2 ^ LENGTH(8)" by (rule unsigned_less)
  then show ?thesis by simp
qed

lemma sextets:
  fixes a b c :: byte
  shows "unat a div 4 < 64" and "unat a mod 4 * 16 + unat b div 16 < 64"
    and "unat b mod 16 * 4 + unat c div 64 < 64" and "unat c mod 64 < 64"
    and "unat a mod 4 * 16 < 64" and "unat b mod 16 * 4 < 64"
  using byte_lt [of a] byte_lt [of b] byte_lt [of c] by auto

lemma bytes_back:
  fixes a b c :: byte
  shows "of_nat (unat a div 4 * 4 + (unat a mod 4 * 16 + unat b div 16) div 16) = a"
    and "of_nat ((unat a mod 4 * 16 + unat b div 16) mod 16 * 16
                 + (unat b mod 16 * 4 + unat c div 64) div 4) = b"
    and "of_nat ((unat b mod 16 * 4 + unat c div 64) mod 4 * 64 + unat c mod 64) = c"
    and "of_nat (unat a div 4 * 4 + (unat a mod 4 * 16) div 16) = a"
    and "(unat a mod 4 * 16) mod 16 = 0"
    and "of_nat ((unat a mod 4 * 16 + unat b div 16) mod 16 * 16 + (unat b mod 16 * 4) div 4) = b"
    and "(unat b mod 16 * 4) mod 4 = 0"
proof -
  have 1: "unat a div 4 * 4 + (unat a mod 4 * 16 + unat b div 16) div 16 = unat a"
    using byte_lt [of b] by simp
  have 2: "(unat a mod 4 * 16 + unat b div 16) mod 16 * 16
             + (unat b mod 16 * 4 + unat c div 64) div 4 = unat b"
    using byte_lt [of b] byte_lt [of c] by (simp; presburger)
  have 3: "(unat b mod 16 * 4 + unat c div 64) mod 4 * 64 + unat c mod 64 = unat c"
    using byte_lt [of c] by (simp; presburger)
  have 4: "unat a div 4 * 4 + (unat a mod 4 * 16) div 16 = unat a" by simp
  have 6: "(unat a mod 4 * 16 + unat b div 16) mod 16 * 16 + (unat b mod 16 * 4) div 4 = unat b"
    using byte_lt [of b] by (simp; presburger)
  show "of_nat (unat a div 4 * 4 + (unat a mod 4 * 16 + unat b div 16) div 16) = a"
    unfolding 1 by simp
  show "of_nat ((unat a mod 4 * 16 + unat b div 16) mod 16 * 16
                 + (unat b mod 16 * 4 + unat c div 64) div 4) = b"
    unfolding 2 by simp
  show "of_nat ((unat b mod 16 * 4 + unat c div 64) mod 4 * 64 + unat c mod 64) = c"
    unfolding 3 by simp
  show "of_nat (unat a div 4 * 4 + (unat a mod 4 * 16) div 16) = a"
    unfolding 4 by simp
  show "(unat a mod 4 * 16) mod 16 = 0" by simp
  show "of_nat ((unat a mod 4 * 16 + unat b div 16) mod 16 * 16 + (unat b mod 16 * 4) div 4) = b"
    unfolding 6 by simp
  show "(unat b mod 16 * 4) mod 4 = 0" by simp
qed

lemma b64decode_quad:
  assumes "s0 < 64" and "s1 < 64" and "s2 < 64" and "s3 < 64"
  shows "b64decode (b64char s0 # b64char s1 # b64char s2 # b64char s3 # rest)
         = map_option (\<lambda>bs. of_nat (s0 * 4 + s1 div 16) # of_nat (s1 mod 16 * 16 + s2 div 4)
                              # of_nat (s2 mod 4 * 64 + s3) # bs) (b64decode rest)"
  using assms by (simp add: b64index_b64char b64char_not_pad)

lemma b64decode_base64: "b64decode (base64 bs) = Some bs"
proof (induction bs rule: base64.induct)
  case (1 a b c r)
  define s0 s1 s2 s3 where "s0 = unat a div 4" and "s1 = unat a mod 4 * 16 + unat b div 16"
    and "s2 = unat b mod 16 * 4 + unat c div 64" and "s3 = unat c mod 64"
  note s = s0_def s1_def s2_def s3_def
  have lt: "s0 < 64" "s1 < 64" "s2 < 64" "s3 < 64"
    unfolding s by (rule sextets)+
  have bk: "of_nat (s0 * 4 + s1 div 16) = a" "of_nat (s1 mod 16 * 16 + s2 div 4) = b"
      "of_nat (s2 mod 4 * 64 + s3) = c"
    unfolding s by (rule bytes_back)+
  have "base64 (a # b # c # r) = b64char s0 # b64char s1 # b64char s2 # b64char s3 # base64 r"
    unfolding s by simp
  then show ?case
    by (simp only: b64decode_quad [OF lt] bk "1.IH" option.map)
next
  case (2 a b)
  define s0 s1 s2 where "s0 = unat a div 4" and "s1 = unat a mod 4 * 16 + unat b div 16"
    and "s2 = unat b mod 16 * 4"
  note s = s0_def s1_def s2_def
  have lt: "s0 < 64" "s1 < 64" "s2 < 64"
    unfolding s by (rule sextets)+
  have bk: "of_nat (s0 * 4 + s1 div 16) = a" "of_nat (s1 mod 16 * 16 + s2 div 4) = b"
      "s2 mod 4 = 0"
    unfolding s by (rule bytes_back)+
  have "base64 [a, b] = [b64char s0, b64char s1, b64char s2, CHR ''='']"
    unfolding s by simp
  then show ?case
    using lt bk by (simp add: b64index_b64char b64char_not_pad)
next
  case (3 a)
  define s0 s1 where "s0 = unat a div 4" and "s1 = unat a mod 4 * 16"
  note s = s0_def s1_def
  have lt: "s0 < 64" "s1 < 64"
    unfolding s by (rule sextets)+
  have bk: "of_nat (s0 * 4 + s1 div 16) = a" "s1 mod 16 = 0"
    unfolding s by (rule bytes_back)+
  have "base64 [a] = [b64char s0, b64char s1, CHR ''='', CHR ''='']"
    unfolding s by simp
  then show ?case
    using lt bk by (simp add: b64index_b64char b64char_not_pad)
next
  case 4
  then show ?case by simp
qed

lemma b64char_no_dollar: "b64char i \<noteq> CHR ''$''"
proof (cases "i < 64")
  case True
  then show ?thesis by (rule b64char_neq) simp
next
  case False
  then show ?thesis by (simp add: b64char_def)
qed

lemma base64_no_dollar: "CHR ''$'' \<notin> set (base64 bs)"
  by (induction bs rule: base64.induct) (simp_all add: b64char_no_dollar [symmetric])

section \<open>Front matter: the claims\<close>

lemma indexOf_None:
  assumes "indexOf str pat = None"
  shows "take (length pat) (drop j str) \<noteq> pat"
proof (cases "j \<le> length str")
  case True
  then have "j \<in> set [0 ..< Suc (length str)]" by (cases "j = length str") auto
  with assms show ?thesis unfolding indexOf_def find_None_iff by blast
next
  case False
  then have "take (length pat) (drop j str) = []" by simp
  moreover have "pat \<noteq> []"
  proof
    assume "pat = []"
    then have "take (length pat) (drop 0 str) = pat" by simp
    moreover have "0 \<in> set [0 ..< Suc (length str)]" by simp
    ultimately show False using assms unfolding indexOf_def find_None_iff by blast
  qed
  ultimately show ?thesis by simp
qed

lemma leadingBlank_none:
  assumes "CHR ''\<newline>'' \<notin> set (takeWhile isSpace B)"
  shows "leadingBlank B = 0"
proof -
  have tw: "takeWhile (\<lambda>c. c \<noteq> CHR ''\<newline>'') (rev (takeWhile isSpace B)) = rev (takeWhile isSpace B)"
    using assms by (auto simp: takeWhile_eq_all_conv)
  show ?thesis unfolding leadingBlank_def Let_def tw by simp
qed

text \<open>
  C6, as amended. Let the text be \<^verbatim>\<open>---\<close>, a line break, \<open>M\<close>, a line break,
  \<^verbatim>\<open>---\<close>, a line break and \<open>B\<close>, where \<open>M\<close> does not begin with a blank line
  (the white space at its start holds no line break, and \<open>M\<close> is not white space only)
  and holds no line break followed by \<^verbatim>\<open>---\<close>. Then the splitter hands \<open>M\<close> to the
  loader; when \<open>M\<close> parses it returns the parsed value (the empty mapping for a falsy
  one) with \<open>B\<close> less the blank lines \<open>B\<close> begins with, and no warning; when \<open>M\<close>
  does not parse it returns the empty mapping, the whole text and a warning. The body is
  \<open>B\<close> itself when \<open>B\<close> does not begin with a blank line.
\<close>

theorem front_matter_split:
  assumes "\<not> list_all isSpace M" and "CHR ''\<newline>'' \<notin> set (takeWhile isSpace M)"
    and "indexOf M ''\<newline>---'' = None"
  shows "parseYamlFrontMatter load (''---\<newline>'' @ M @ ''\<newline>---\<newline>'' @ B)
         = (case load M of
              Inr v \<Rightarrow> \<lparr>frontMatter = (if truthy v then v else JMap []),
                        body = drop (leadingBlank B) B, warned = []\<rparr>
            | Inl msg \<Rightarrow> \<lparr>frontMatter = JMap [],
                          body = ''---\<newline>'' @ M @ ''\<newline>---\<newline>'' @ B,
                          warned = [YamlParseFailed msg]\<rparr>)
         \<and> (CHR ''\<newline>'' \<notin> set (takeWhile isSpace B) \<longrightarrow> drop (leadingBlank B) B = B)"
proof -
  from assms(1) have ns: "\<exists>c \<in> set M. \<not> isSpace c" by (simp add: list_all_iff)
  have len4: "length ''\<newline>---'' = 4" by simp
  have nd: "\<forall>j. take 4 (drop j M) \<noteq> ''\<newline>---''"
    using indexOf_None [OF assms(3), unfolded len4] by blast
  have "exec yamlRegex (''---\<newline>'' @ M @ ''\<newline>---\<newline>'' @ B) 0
        = Some \<lparr>index = 0, matched = ''---\<newline>'' @ M @ ''\<newline>---\<newline>'' @ B,
                captures = [M, drop (leadingBlank B) B]\<rparr>"
    by (rule yamlRegex_delimited [OF ns assms(2) nd])
  then have "parseYamlFrontMatter load (''---\<newline>'' @ M @ ''\<newline>---\<newline>'' @ B)
         = (case load M of
              Inr v \<Rightarrow> \<lparr>frontMatter = (if truthy v then v else JMap []),
                        body = drop (leadingBlank B) B, warned = []\<rparr>
            | Inl msg \<Rightarrow> \<lparr>frontMatter = JMap [],
                          body = ''---\<newline>'' @ M @ ''\<newline>---\<newline>'' @ B,
                          warned = [YamlParseFailed msg]\<rparr>)"
    unfolding parseYamlFrontMatter_def by (simp add: capture_def split: sum.splits)
  then show ?thesis using leadingBlank_none [of B] by simp
qed

theorem front_matter_split_witness:
  "\<not> list_all isSpace ''author: Jane'' \<and> CHR ''\<newline>'' \<notin> set (takeWhile isSpace ''author: Jane'')
   \<and> indexOf ''author: Jane'' ''\<newline>---'' = None
   \<and> parseYamlFrontMatter sampleLoad (''---\<newline>'' @ ''author: Jane'' @ ''\<newline>---\<newline>'' @ ''\<newline># Title'')
       = \<lparr>frontMatter = JMap [(''author'', JStr ''Jane'')], body = ''# Title'', warned = []\<rparr>
   \<and> parseYamlFrontMatter sampleLoad (''---\<newline>'' @ ''author: Jane'' @ ''\<newline>---\<newline>'' @ ''# Title'')
       = \<lparr>frontMatter = JMap [(''author'', JStr ''Jane'')], body = ''# Title'', warned = []\<rparr>"
proof -
  have h1: "\<not> list_all isSpace ''author: Jane''" by code_simp
  have h2: "CHR ''\<newline>'' \<notin> set (takeWhile isSpace ''author: Jane'')" by code_simp
  have h3: "indexOf ''author: Jane'' ''\<newline>---'' = None" by code_simp
  have l1: "drop (leadingBlank ''\<newline># Title'') ''\<newline># Title'' = ''# Title''" by code_simp
  have l2: "drop (leadingBlank ''# Title'') ''# Title'' = ''# Title''" by code_simp
  have s: "sampleLoad ''author: Jane'' = Inr (JMap [(''author'', JStr ''Jane'')])"
    by (simp add: sampleLoad_def)
  show ?thesis
    using h1 h2 h3
      front_matter_split [OF h1 h2 h3, of sampleLoad "''\<newline># Title''"]
      front_matter_split [OF h1 h2 h3, of sampleLoad "''# Title''"]
    by (simp only: s l1 l2 sum.case truthy.simps if_True simp_thms)
qed

text \<open>
  C6, as stated, fails where \<open>B\<close> begins with a blank line: the white space after the
  closing \<^verbatim>\<open>---\<close> is matched by \<^verbatim>\<open>\s*\<close>, which takes line breaks too, so for
  \<open>M\<close> = \<^verbatim>\<open>a: 1\<close> and \<open>B\<close> = a line break and \<^verbatim>\<open>x\<close> the body returned is
  \<^verbatim>\<open>x\<close>, not \<open>B\<close>.
\<close>

theorem front_matter_body_counterexample:
  "sampleLoad ''a: 1'' = Inr (JMap [(''a'', JNum 1)])
   \<and> body (parseYamlFrontMatter sampleLoad (''---\<newline>'' @ ''a: 1'' @ ''\<newline>---\<newline>'' @ ''\<newline>x'')) = ''x''
   \<and> body (parseYamlFrontMatter sampleLoad (''---\<newline>'' @ ''a: 1'' @ ''\<newline>---\<newline>'' @ ''\<newline>x'')) \<noteq> ''\<newline>x''"
  by code_simp

text \<open>
  C7, as amended. Let the text be \<^verbatim>\<open>---\<close>, a line break, \<open>M\<close>, a line break,
  \<^verbatim>\<open>---\<close>, a line break and \<open>B\<close>, where \<open>M\<close> holds a character that is not white
  space, does not begin with a blank line and holds no line break followed by
  \<^verbatim>\<open>---\<close>, so that \<open>M\<close> is the content of the block. When the loader throws on \<open>M\<close>,
  the splitter returns the empty mapping, the whole text as it was, and one warning with the
  message of the exception. The function has no other outcome there: nothing is raised and
  nothing of the block is kept.
\<close>

theorem malformed_front_matter:
  assumes "\<not> list_all isSpace M" and "CHR ''\<newline>'' \<notin> set (takeWhile isSpace M)"
    and "indexOf M ''\<newline>---'' = None" and "load M = Inl msg"
  shows "parseYamlFrontMatter load (''---\<newline>'' @ M @ ''\<newline>---\<newline>'' @ B)
         = \<lparr>frontMatter = JMap [], body = ''---\<newline>'' @ M @ ''\<newline>---\<newline>'' @ B,
            warned = [YamlParseFailed msg]\<rparr>"
proof -
  from assms(1) have ns: "\<exists>c \<in> set M. \<not> isSpace c" by (simp add: list_all_iff)
  have len4: "length ''\<newline>---'' = 4" by simp
  have nd: "\<forall>j. take 4 (drop j M) \<noteq> ''\<newline>---''"
    using indexOf_None [OF assms(3), unfolded len4] by blast
  have "exec yamlRegex (''---\<newline>'' @ M @ ''\<newline>---\<newline>'' @ B) 0
        = Some \<lparr>index = 0, matched = ''---\<newline>'' @ M @ ''\<newline>---\<newline>'' @ B,
                captures = [M, drop (leadingBlank B) B]\<rparr>"
    by (rule yamlRegex_delimited [OF ns assms(2) nd])
  then show ?thesis
    unfolding parseYamlFrontMatter_def by (simp add: capture_def assms(4))
qed

theorem malformed_front_matter_witness:
  "\<not> list_all isSpace ''a: [1'' \<and> CHR ''\<newline>'' \<notin> set (takeWhile isSpace ''a: [1'')
   \<and> indexOf ''a: [1'' ''\<newline>---'' = None
   \<and> sampleLoad ''a: [1''
       = Inl ''unexpected end of the stream within a flow collection (2:1)\<newline>\<newline> 1 | a: [1\<newline> 2 | \<newline>-----^''
   \<and> parseYamlFrontMatter sampleLoad (''---\<newline>'' @ ''a: [1'' @ ''\<newline>---\<newline>'' @ ''# Title'')
       = \<lparr>frontMatter = JMap [], body = ''---\<newline>'' @ ''a: [1'' @ ''\<newline>---\<newline>'' @ ''# Title'',
          warned = [YamlParseFailed ''unexpected end of the stream within a flow collection (2:1)\<newline>\<newline> 1 | a: [1\<newline> 2 | \<newline>-----^'']\<rparr>"
proof -
  have h1: "\<not> list_all isSpace ''a: [1''" by code_simp
  have h2: "CHR ''\<newline>'' \<notin> set (takeWhile isSpace ''a: [1'')" by code_simp
  have h3: "indexOf ''a: [1'' ''\<newline>---'' = None" by code_simp
  have h4: "sampleLoad ''a: [1''
       = Inl ''unexpected end of the stream within a flow collection (2:1)\<newline>\<newline> 1 | a: [1\<newline> 2 | \<newline>-----^''"
    by code_simp
  from h1 h2 h3 h4 malformed_front_matter [where load = sampleLoad and B = "''# Title''", OF h1 h2 h3 h4]
  show ?thesis by (intro conjI)
qed

text \<open>
  C7, as stated, fails where the closing \<^verbatim>\<open>---\<close> is the last line of the text and no
  line break ends it: the expression asks for a line break after the closing delimiter, so
  the block is not recognised, the loader is not called and no warning is written.
\<close>

theorem unterminated_delimiter_counterexample:
  "sampleLoad ''a: [1''
     = Inl ''unexpected end of the stream within a flow collection (2:1)\<newline>\<newline> 1 | a: [1\<newline> 2 | \<newline>-----^''
   \<and> parseYamlFrontMatter sampleLoad ''---\<newline>a: [1\<newline>---''
       = \<lparr>frontMatter = JMap [], body = ''---\<newline>a: [1\<newline>---'', warned = []\<rparr>"
  by code_simp

text \<open>
  C10, as amended. Let the text be \<^verbatim>\<open>---\<close>, a line break, \<open>M\<close>, a line break,
  \<^verbatim>\<open>---\<close>, a line break and \<open>B\<close>, where \<open>M\<close> holds a character that is not white
  space, does not begin with a blank line and holds no line break followed by
  \<^verbatim>\<open>---\<close>. When the loader returns a falsy value on \<open>M\<close> (\<^verbatim>\<open>null\<close> for a block of
  comments), the splitter returns the empty mapping and, as body, \<open>B\<close> less the blank lines
  \<open>B\<close> begins with, which is \<open>B\<close> itself when \<open>B\<close> begins with none: the delimiter block
  is consumed. No warning is written.
\<close>

theorem empty_front_matter:
  assumes "\<not> list_all isSpace M" and "CHR ''\<newline>'' \<notin> set (takeWhile isSpace M)"
    and "indexOf M ''\<newline>---'' = None" and "load M = Inr v" and "\<not> truthy v"
  shows "parseYamlFrontMatter load (''---\<newline>'' @ M @ ''\<newline>---\<newline>'' @ B)
         = \<lparr>frontMatter = JMap [], body = drop (leadingBlank B) B, warned = []\<rparr>
         \<and> (CHR ''\<newline>'' \<notin> set (takeWhile isSpace B) \<longrightarrow> drop (leadingBlank B) B = B)"
proof -
  from assms(1) have ns: "\<exists>c \<in> set M. \<not> isSpace c" by (simp add: list_all_iff)
  have len4: "length ''\<newline>---'' = 4" by simp
  have nd: "\<forall>j. take 4 (drop j M) \<noteq> ''\<newline>---''"
    using indexOf_None [OF assms(3), unfolded len4] by blast
  have "exec yamlRegex (''---\<newline>'' @ M @ ''\<newline>---\<newline>'' @ B) 0
        = Some \<lparr>index = 0, matched = ''---\<newline>'' @ M @ ''\<newline>---\<newline>'' @ B,
                captures = [M, drop (leadingBlank B) B]\<rparr>"
    by (rule yamlRegex_delimited [OF ns assms(2) nd])
  then have "parseYamlFrontMatter load (''---\<newline>'' @ M @ ''\<newline>---\<newline>'' @ B)
         = \<lparr>frontMatter = JMap [], body = drop (leadingBlank B) B, warned = []\<rparr>"
    unfolding parseYamlFrontMatter_def by (simp add: capture_def assms(4,5))
  then show ?thesis using leadingBlank_none [of B] by simp
qed

theorem empty_front_matter_witness:
  "\<not> list_all isSpace ''# none'' \<and> CHR ''\<newline>'' \<notin> set (takeWhile isSpace ''# none'')
   \<and> indexOf ''# none'' ''\<newline>---'' = None
   \<and> sampleLoad ''# none'' = Inr JNull \<and> \<not> truthy JNull
   \<and> CHR ''\<newline>'' \<notin> set (takeWhile isSpace ''# Title'')
   \<and> parseYamlFrontMatter sampleLoad (''---\<newline>'' @ ''# none'' @ ''\<newline>---\<newline>'' @ ''# Title'')
       = \<lparr>frontMatter = JMap [], body = ''# Title'', warned = []\<rparr>"
proof -
  have h1: "\<not> list_all isSpace ''# none''" by code_simp
  have h2: "CHR ''\<newline>'' \<notin> set (takeWhile isSpace ''# none'')" by code_simp
  have h3: "indexOf ''# none'' ''\<newline>---'' = None" by code_simp
  have h4: "sampleLoad ''# none'' = Inr JNull" by code_simp
  have h5: "\<not> truthy JNull" by simp
  have h6: "CHR ''\<newline>'' \<notin> set (takeWhile isSpace ''# Title'')" by code_simp
  from empty_front_matter [where load = sampleLoad and B = "''# Title''", OF h1 h2 h3 h4 h5] h6
  have "parseYamlFrontMatter sampleLoad (''---\<newline>'' @ ''# none'' @ ''\<newline>---\<newline>'' @ ''# Title'')
       = \<lparr>frontMatter = JMap [], body = ''# Title'', warned = []\<rparr>"
    by simp
  with h1 h2 h3 h4 h5 h6 show ?thesis by (intro conjI)
qed

text \<open>
  C10, as stated, fails for a block of white space only when a later line of the body is
  \<^verbatim>\<open>---\<close>: the white space after the opening \<^verbatim>\<open>---\<close> is matched by
  \<^verbatim>\<open>\s*\<close>, which takes the blank content and the line break after it, so the closing
  delimiter is read as the start of the content and the later \<^verbatim>\<open>---\<close> line as the
  closing delimiter. The loader is handed \<^verbatim>\<open>---\<close> and the comment, and the body
  returned is what follows the later line, not what follows the block.
\<close>

theorem blank_front_matter_counterexample:
  "sampleLoad '' '' = Inr JUndefined
   \<and> sampleLoad ''---\<newline># c'' = Inr JNull
   \<and> parseYamlFrontMatter sampleLoad (''---\<newline>'' @ '' '' @ ''\<newline>---\<newline>'' @ ''# c\<newline>---\<newline>more'')
       = \<lparr>frontMatter = JMap [], body = ''more'', warned = []\<rparr>
   \<and> body (parseYamlFrontMatter sampleLoad
              (''---\<newline>'' @ '' '' @ ''\<newline>---\<newline>'' @ ''# c\<newline>---\<newline>more''))
       \<noteq> ''# c\<newline>---\<newline>more''"
  by code_simp

section \<open>Replacement patterns\<close>

lemma gs_Cons_plain:
  "c \<noteq> CHR ''$'' \<Longrightarrow> getSubstitution mt str pos caps (c # r) = c # getSubstitution mt str pos caps r"
  by (cases r) simp_all

lemma gs_plain_append:
  "CHR ''$'' \<notin> set x \<Longrightarrow>
   getSubstitution mt str pos caps (x @ y) = x @ getSubstitution mt str pos caps y"
  by (induction x) (auto simp: gs_Cons_plain)

lemma gs_plain: "CHR ''$'' \<notin> set x \<Longrightarrow> getSubstitution mt str pos caps x = x"
  using gs_plain_append [of x mt str pos caps "[]"] by simp

lemma gs_nocaps:
  "getSubstitution mt str pos [] (c # d # r) =
     (if c \<noteq> CHR ''$'' then c # getSubstitution mt str pos [] (d # r)
      else if d = CHR ''$'' then CHR ''$'' # getSubstitution mt str pos [] r
      else if d = CHR ''&'' then mt @ getSubstitution mt str pos [] r
      else if d = CHR 0x60 then take pos str @ getSubstitution mt str pos [] r
      else if d = CHR 0x27 then drop (pos + length mt) str @ getSubstitution mt str pos [] r
      else c # getSubstitution mt str pos [] (d # r))"
  by (auto split: list.splits)

lemma gs_split:
  assumes "d \<noteq> CHR ''$''" and "d \<noteq> CHR ''&''" and "d \<noteq> CHR 0x60" and "d \<noteq> CHR 0x27"
  shows "getSubstitution mt str pos [] (x @ d # y)
         = getSubstitution mt str pos [] x @ getSubstitution mt str pos [] (d # y)"
proof (induction x rule: length_induct)
  case (1 x)
  show ?case
  proof (cases x)
    case Nil
    then show ?thesis by simp
  next
    case (Cons c x')
    have ih2: "getSubstitution mt str pos [] (x' @ d # y)
        = getSubstitution mt str pos [] x' @ getSubstitution mt str pos [] (d # y)"
      using 1 Cons by simp
    show ?thesis
    proof (cases x')
      case Nil
      then show ?thesis
        using \<open>x = c # x'\<close> assms
        by (simp only: append_Cons append_Nil gs_nocaps getSubstitution.simps(2)) simp
    next
      case (Cons c' x'')
      have ih1: "getSubstitution mt str pos [] (x'' @ d # y)
          = getSubstitution mt str pos [] x'' @ getSubstitution mt str pos [] (d # y)"
        using 1 \<open>x = c # x'\<close> Cons by simp
      show ?thesis
        using ih1 ih2 [unfolded Cons]
        unfolding \<open>x = c # x'\<close> Cons
        by (simp only: append_Cons gs_nocaps) simp
    qed
  qed
qed

lemma replaceStr_at:
  assumes "indexOf str pat = Some pos"
  shows "replaceStr str pat repl
         = take pos str @ getSubstitution pat str pos [] repl @ drop (pos + length pat) str"
  using assms by (simp add: replaceStr_def)

lemma img_rewrite:
  assumes "CHR ''$'' \<notin> set c"
  shows \<open>getSubstitution mt str pos [] (''<img'' @ b @ ''src="'' @ c @ ''"'' @ a @ ''>'')
         = ''<img'' @ getSubstitution mt str pos [] b @ ''src="'' @ c @ ''"''
             @ getSubstitution mt str pos [] a @ ''>''\<close>
proof -
  have 1: \<open>getSubstitution mt str pos [] (a @ ''>'') = getSubstitution mt str pos [] a @ ''>''\<close>
    using gs_split [of "CHR ''>''" mt str pos a "[]"] by simp
  have 2: \<open>getSubstitution mt str pos [] (''src="'' @ c @ ''"'' @ a @ ''>'')
           = ''src="'' @ c @ ''"'' @ getSubstitution mt str pos [] a @ ''>''\<close>
    using gs_plain_append [of \<open>''src="'' @ c @ ''"''\<close> mt str pos "[]" \<open>a @ ''>''\<close>] assms 1
    by simp
  have 3: \<open>getSubstitution mt str pos [] (b @ ''src="'' @ c @ ''"'' @ a @ ''>'')
           = getSubstitution mt str pos [] b @ ''src="'' @ c @ ''"''
               @ getSubstitution mt str pos [] a @ ''>''\<close>
    using gs_split [of "CHR ''s''" mt str pos b \<open>''rc="'' @ c @ ''"'' @ a @ ''>''\<close>] 2
    by simp
  show ?thesis
    using gs_plain_append [of "''<img''" mt str pos "[]"
        \<open>b @ ''src="'' @ c @ ''"'' @ a @ ''>''\<close>] 3
    by simp
qed

section \<open>Images: the claims\<close>

lemma mediaType_plain: "CHR ''$'' \<notin> set (mediaType ext)"
  by (simp add: mediaType_def)

lemma resolve_raster:
  assumes "\<not> test httpRegex s" and "fs_stat e (absPathOf e baseDir s) = Some st" and "st_isFile st"
    and "toLowerCase (drop 1 (path_extname e (absPathOf e baseDir s))) = ext"
    and "ext \<in> set rasterExts" and "fs_readFile e (absPathOf e baseDir s) = Some bytes"
  shows "resolveImage e baseDir True tempDir s
         = \<lparr>outcome = Inr (Some (Base64 (''data:'' @ mediaType ext @ '';base64,'' @ base64 bytes))),
            logged = [], temps = []\<rparr>"
proof -
  from assms(5) have ext: "ext \<noteq> ''pdf''" "ext \<in> set supportedExts" "ext \<noteq> ''svg''"
    and mt: "''image/'' @ (if ext = ''jpg'' then ''jpeg'' else ext) = mediaType ext"
    by (auto simp: rasterExts_def supportedExts_def mediaType_def)
  show ?thesis
    using assms(1-4,6) ext
    unfolding resolveImage_def absPathOf_def [symmetric] Let_def readBase64_def mt [symmetric]
    by simp
qed



lemma mapKeys_single: "mapKeys [k] = [k]"
  by (simp add: mapKeys_def)

text \<open>
  A fragment with one image element, whose source is a local path that resolves to a
  regular file with a raster extension (\<^verbatim>\<open>png\<close>, \<^verbatim>\<open>jpg\<close>, \<^verbatim>\<open>jpeg\<close>,
  \<^verbatim>\<open>gif\<close>, \<^verbatim>\<open>webp\<close>, in any case of letters) that can be read, and embed mode on:
  the entry the resolver stores for the source is a data reference with the media type of
  the extension and a Base64 payload that decodes to exactly the bytes of the file, and
  the fragment returned has, in place of the element, the text \<^verbatim>\<open><img\<close>, the
  attributes before the source, \<^verbatim>\<open>src="\<close>, that data reference, \<^verbatim>\<open>"\<close>, the
  attributes after the source and \<^verbatim>\<open>>\<close>, where the attributes pass through the
  replacement patterns of \<^verbatim>\<open>String.prototype.replace\<close>.
\<close>

lemma raster_single_image:
  assumes "imageMatches html = Some [im]" and "indexOf html (fullMatch im) = Some pos"
    and "\<not> test httpRegex (src im)"
    and "fs_stat e (absPathOf e baseDir (src im)) = Some st" and "st_isFile st"
    and "toLowerCase (drop 1 (path_extname e (absPathOf e baseDir (src im)))) = ext"
    and "ext \<in> set rasterExts"
    and "fs_readFile e (absPathOf e baseDir (src im)) = Some bytes"
  shows \<open>\<exists>payload.
           b64decode payload = Some bytes
         \<and> resolveImage e baseDir True tempDir (src im)
             = \<lparr>outcome = Inr (Some (Base64 (''data:'' @ mediaType ext @ '';base64,'' @ payload))),
                logged = [], temps = []\<rparr>
         \<and> processImages e html baseDir True
             = Some \<lparr>returned = Inr (take pos html
                         @ ''<img'' @ getSubstitution (fullMatch im) html pos [] (beforeSrc im)
                         @ ''src="'' @ ''data:'' @ mediaType ext @ '';base64,'' @ payload @ ''"''
                         @ getSubstitution (fullMatch im) html pos [] (afterSrc im) @ ''>''
                         @ drop (pos + length (fullMatch im)) html),
                     warnings = (if fs_mkdirFails e (path_join e baseDir ''.md2pdf_temp'')
                                 then [TempDirFailed (path_join e baseDir ''.md2pdf_temp'')]
                                 else [])\<rparr>\<close>
proof -
  define c where "c = ''data:'' @ mediaType ext @ '';base64,'' @ base64 bytes"
  have plain: "CHR ''$'' \<notin> set c"
    by (simp add: c_def mediaType_plain base64_no_dollar)
  have r: "resolveImage e baseDir True tempDir (src im)
           = \<lparr>outcome = Inr (Some (Base64 c)), logged = [], temps = []\<rparr>" for tempDir
    unfolding c_def by (rule resolve_raster [OF assms(3-8)])
  let ?R = "\<lparr>outcome = Inr (Some (Base64 c)), logged = [], temps = []\<rparr>"
  let ?out = \<open>take pos html
                 @ ''<img'' @ getSubstitution (fullMatch im) html pos [] (beforeSrc im)
                 @ ''src="'' @ c @ ''"''
                 @ getSubstitution (fullMatch im) html pos [] (afterSrc im) @ ''>''
                 @ drop (pos + length (fullMatch im)) html\<close>
  have im: "imageMapOf [(src im, ?R)] (src im) = Some (Base64 c)"
    by (simp add: imageMapOf_def)
  have \<open>substitute (imageMapOf [(src im, ?R)]) html [im]
        = Some (replaceStr html (fullMatch im)
                  (''<img'' @ beforeSrc im @ ''src="'' @ c @ ''"'' @ afterSrc im @ ''>''))\<close>
    by (simp only: substitute.simps im option.case image_info.case)
  also have \<open>\<dots> = Some ?out\<close>
    by (simp only: replaceStr_at [OF assms(2)] img_rewrite [OF plain] append_assoc)
  finally have sub: "substitute (imageMapOf [(src im, ?R)]) html [im] = Some ?out" .
  have p: \<open>processImages e html baseDir True
             = Some \<lparr>returned = Inr (take pos html
                         @ ''<img'' @ getSubstitution (fullMatch im) html pos [] (beforeSrc im)
                         @ ''src="'' @ c @ ''"''
                         @ getSubstitution (fullMatch im) html pos [] (afterSrc im) @ ''>''
                         @ drop (pos + length (fullMatch im)) html),
                     warnings = (if fs_mkdirFails e (path_join e baseDir ''.md2pdf_temp'')
                                 then [TempDirFailed (path_join e baseDir ''.md2pdf_temp'')]
                                 else [])\<rparr>\<close>
    unfolding processImages_def
    by (simp add: assms(1) mapKeys_single r sub Let_def del: substitute.simps)
  show ?thesis
    using b64decode_base64 [of bytes] r [of tempDir] p unfolding c_def
    by (intro exI [of _ "base64 bytes"]) simp
qed

text \<open>
  C1. For a raster image the resolver reads the bytes and stores a data reference with the
  media type of the extension, whose payload decodes to the bytes of the file. The text
  put in place of the element is \<^verbatim>\<open><img\<close> followed at once by the attributes before
  the source and \<^verbatim>\<open>src=\<close>: the white space after \<^verbatim>\<open><img\<close>, which the expression
  matches outside its groups, is not put back. So the fragment returned holds
  \<^verbatim>\<open><imgsrc=\<close> or \<^verbatim>\<open><imgalt=\<close>, which is not an image element with that source.
  Here the sample image, eight bytes, is referred to twice.
\<close>

theorem raster_tag_name_lost:
  \<open>fs_readFile sampleEnv ''/doc/a.png'' = Some pngBytes
   \<and> b64decode ''iVBORw0KGgo='' = Some pngBytes
   \<and> processImages sampleEnv ''<p><img src="a.png" alt="x"> <img alt="y" src="a.png"></p>'' ''/doc'' True
       = Some \<lparr>returned = Inr ''<p><imgsrc="data:image/png;base64,iVBORw0KGgo=" alt="x"> <imgalt="y" src="data:image/png;base64,iVBORw0KGgo="></p>'',
               warnings = []\<rparr>\<close>
  by code_simp



lemma substitute_skip:
  "imageMap (src im) = None \<Longrightarrow> substitute imageMap res (im # ims) = substitute imageMap res ims"
  by simp







lemma fileSizeMB_gt: "1 < fileSizeMB n \<longleftrightarrow> 1048576 < n"
  by (simp add: fileSizeMB_def field_simps)

lemma resolve_svg:
  assumes "\<not> test httpRegex s" and "fs_stat e (absPathOf e baseDir s) = Some st" and "st_isFile st"
    and "toLowerCase (drop 1 (path_extname e (absPathOf e baseDir s))) = ''svg''"
  shows "resolveImage e baseDir True tempDir s
         = (if 1048576 < st_size st
            then readBase64 e (absPathOf e baseDir s) ''image/svg+xml'' [] []
            else readSvg e (absPathOf e baseDir s) [] [])"
  using assms
  unfolding resolveImage_def absPathOf_def [symmetric] Let_def
  by (simp add: fileSizeMB_gt supportedExts_def)

text \<open>
  C3 fails on the code at the threshold itself: the test is
  \<^verbatim>\<open>fileSizeMB > 1.0\<close>, so a vector image of exactly 1 MiB (1048576 bytes) is read as
  text and spliced inline with embed mode on, where the claim, and the comment above the
  test, send a file of 1 MiB or more to Base64. The lemma above gives the rule the code
  follows; this is the code at that size.
\<close>

theorem svg_at_threshold_spliced:
  "fs_stat sampleEnv ''/doc/big.svg'' = Some \<lparr>st_isFile = True, st_size = 1048576\<rparr>
   \<and> fs_readFileUtf8 sampleEnv ''/doc/big.svg'' = Some bigSvg
   \<and> length bigSvg = 1024 * 1024
   \<and> resolveImage sampleEnv ''/doc'' True ''/doc/.md2pdf_temp'' ''big.svg''
       = \<lparr>outcome = Inr (Some (Svg bigSvg)), logged = [], temps = []\<rparr>"
proof -
  have a: "absPathOf sampleEnv ''/doc'' ''big.svg'' = ''/doc/big.svg''" by code_simp
  have h1: "\<not> test httpRegex ''big.svg''" by code_simp
  have h2: "fs_stat sampleEnv ''/doc/big.svg'' = Some \<lparr>st_isFile = True, st_size = 1048576\<rparr>"
    by (simp add: sampleEnv_def)
  have h3: "st_isFile \<lparr>st_isFile = True, st_size = 1048576\<rparr>" by simp
  have h4: "toLowerCase (drop 1 (path_extname sampleEnv ''/doc/big.svg'')) = ''svg''" by code_simp
  have h5: "fs_readFileUtf8 sampleEnv ''/doc/big.svg'' = Some bigSvg"
    by (simp add: sampleEnv_def)
  have "resolveImage sampleEnv ''/doc'' True ''/doc/.md2pdf_temp'' ''big.svg''
        = readSvg sampleEnv ''/doc/big.svg'' [] []"
    using resolve_svg [of "''big.svg''" sampleEnv "''/doc''", unfolded a, OF h1 h2 h3 h4] by simp
  then have "resolveImage sampleEnv ''/doc'' True ''/doc/.md2pdf_temp'' ''big.svg''
        = \<lparr>outcome = Inr (Some (Svg bigSvg)), logged = [], temps = []\<rparr>"
    by (simp add: readSvg_def h5)
  moreover have "length bigSvg = 1024 * 1024" by (simp add: bigSvg_def)
  ultimately show ?thesis using h2 h5 by simp
qed

text \<open>
  C4 fails on the code for the attributes passed through: width and height are added to
  the root element only when it has none, but \<^verbatim>\<open>class\<close>, \<^verbatim>\<open>style\<close> and the other
  attributes of the image element are appended without that test. An image element with
  \<^verbatim>\<open>class="fig"\<close> on a vector image whose root has \<^verbatim>\<open>class="logo"\<close> gives a root
  element with two \<^verbatim>\<open>class\<close> attributes.
\<close>

theorem passthrough_attribute_duplicated:
  \<open>imageSources ''<p><img src="logo.svg" class="fig"></p>'' = [''logo.svg'']
   \<and> fs_readFileUtf8 sampleEnv ''/doc/logo.svg'' = Some ''<svg class="logo" viewBox="0 0 1 1"><g/></svg>''
   \<and> processImages sampleEnv ''<p><img src="logo.svg" class="fig"></p>'' ''/doc'' True
       = Some \<lparr>returned = Inr ''<p><svg class="logo" viewBox="0 0 1 1" class="fig"><g/></svg></p>'',
               warnings = []\<rparr>\<close>
  by code_simp

section \<open>Fenced diagram blocks\<close>

text \<open>
  C5. A fenced block whose language tag, trimmed and in lower case, is \<^verbatim>\<open>mermaid\<close> is
  rendered as the container \<^verbatim>\<open><div class="mermaid">\<close> around the content of the block,
  character for character. The rule that renders the other blocks through the
  highlighter, \<open>baseFence\<close>, has no part in the result, whatever it is.
\<close>

theorem fence_mermaid_verbatim:
  assumes "toLowerCase (trim (info tok)) = ''mermaid''"
  shows \<open>fence baseFence tok = ''<div class="mermaid">\<newline>'' @ content tok @ ''\<newline></div>\<newline>''\<close>
  using assms by (simp add: fence_def)

theorem fence_mermaid_verbatim_witness:
  \<open>toLowerCase (trim (info \<lparr>info = '' Mermaid '', content = ''A-->B\<newline>''\<rparr>)) = ''mermaid''
   \<and> fence (\<lambda>t. ''<pre><code>A--&gt;B</code></pre>'') \<lparr>info = '' Mermaid '', content = ''A-->B\<newline>''\<rparr>
       = ''<div class="mermaid">\<newline>A-->B\<newline>\<newline></div>\<newline>''\<close>
proof -
  have h: "toLowerCase (trim (info \<lparr>info = '' Mermaid '', content = ''A-->B\<newline>''\<rparr>)) = ''mermaid''"
    by code_simp
  show ?thesis
    using h fence_mermaid_verbatim [OF h, of "\<lambda>t. ''<pre><code>A--&gt;B</code></pre>''"]
    by simp
qed

section \<open>Occurrences and literal expressions\<close>

lemma occursIn_iff: "occursIn c s \<longleftrightarrow> (\<exists>x y. s = x @ c @ y)"
proof
  assume "occursIn c s"
  then obtain i where "indexOf s c = Some i" unfolding occursIn_def by auto
  then have "take (length c) (drop i s) = c"
    unfolding indexOf_def find_Some_iff by blast
  then have "s = take i s @ c @ drop (length c) (drop i s)"
    by (metis append_take_drop_id)
  then show "\<exists>x y. s = x @ c @ y" by blast
next
  assume "\<exists>x y. s = x @ c @ y"
  then obtain x y where s: "s = x @ c @ y" by blast
  have "take (length c) (drop (length x) s) = c" by (simp add: s)
  moreover have "length x \<in> set [0 ..< Suc (length s)]" by (simp add: s)
  ultimately show "occursIn c s"
    unfolding occursIn_def indexOf_def find_None_iff by blast
qed


lemma occurs_within:
  assumes "take (length p) (drop i (x @ y)) = p" and "i + length p \<le> length x"
  shows "occursIn p x"
proof -
  have "take (length p) (drop i (x @ y)) = take (length p) (drop i x)"
    using assms(2) by simp
  with assms(1) have "take (length p) (drop i x) = p" by simp
  then have "x = take i x @ p @ drop (length p) (drop i x)"
    by (metis append_take_drop_id)
  then show ?thesis unfolding occursIn_iff by blast
qed

lemma occurrence_nth:
  assumes "take (length p) (drop i s) = p" and "k < length p"
  shows "i + k < length s" and "s ! (i + k) = p ! k"
proof -
  from arg_cong [OF assms(1), of length] have l: "length p \<le> length s - i" by simp
  with assms(2) show "i + k < length s" by simp
  have "p ! k = take (length p) (drop i s) ! k" by (simp add: assms(1))
  also have "\<dots> = s ! (i + k)" using assms(2) l by simp
  finally show "s ! (i + k) = p ! k" ..
qed





lemma exec_first:
  assumes "\<And>i. i < k \<Longrightarrow> matchAt items inp i = None" and "k \<le> length inp"
    and "matchAt items inp k = Some m"
  shows "exec items inp 0 = Some m"
  unfolding exec_def
  by (rule firstSome_lazy [where j = k]) (use assms in simp_all)

lemma exec_matched:
  assumes "exec items inp start = Some m"
  shows "take (index m) inp @ matched m = take (matchEnd m) inp"
proof -
  from exec_SomeD [OF assms] obtain i where i: "i \<le> length inp" and mi: "matchAt items inp i = Some m"
    by blast
  from mi obtain rest :: string and caps where
    m: "m = \<lparr>index = i, matched = take (length inp - i - length rest) (drop i inp), captures = caps\<rparr>"
    by (auto simp: matchAt_def split: option.splits)
  have "take (i + n) inp = take i inp @ take n (drop i inp)" for n
    by (simp add: take_add)
  then show ?thesis using i by (simp add: m matchEnd_def min_def)
qed

section \<open>Metadata block: the claim\<close>

lemma getProp_or_empty: "getProp (if truthy fm then fm else JMap []) k = getProp fm k"
  by (cases fm) simp_all

lemma generateMetaInfo_eq:
  \<open>generateMetaInfo fm =
     (if \<not> truthy (getProp fm ''author'') \<and> \<not> truthy (getProp fm ''affiliation'')
         \<and> \<not> truthy (getProp fm ''student_id'') then []
      else ''\<newline>  <div class="document-meta">\<newline>    ''
           @ metaLine ''meta-student-id'' (studentIdLabel @ '': '') (getProp fm ''student_id'')
           @ ''\<newline>    '' @ metaLine ''meta-author'' [] (getProp fm ''author'')
           @ ''\<newline>    '' @ metaLine ''meta-affiliation'' [] (getProp fm ''affiliation'')
           @ ''\<newline>  </div>'')\<close>
  unfolding generateMetaInfo_def Let_def getProp_or_empty metaLine_def by simp

lemma metaLine_plain:
  "CHR ''$'' \<notin> set cls \<Longrightarrow> CHR ''$'' \<notin> set label \<Longrightarrow> CHR ''$'' \<notin> set (toString v)
   \<Longrightarrow> CHR ''$'' \<notin> set (metaLine cls label v)"
  by (simp add: metaLine_def)

lemma generateMetaInfo_plain:
  assumes "CHR ''$'' \<notin> set (toString (getProp fm ''student_id''))"
    and "CHR ''$'' \<notin> set (toString (getProp fm ''author''))"
    and "CHR ''$'' \<notin> set (toString (getProp fm ''affiliation''))"
  shows "CHR ''$'' \<notin> set (generateMetaInfo fm)"
  unfolding generateMetaInfo_eq using assms
  by (simp add: metaLine_plain studentIdLabel_def)

lemma h1Regex_sound:
  assumes "exec h1Regex html 0 = Some m"
  obtains a b where \<open>matched m = ''<h1'' @ a @ ''>'' @ b @ ''</h1>''\<close> and "captures m = [matched m]"
    and "CHR ''>'' \<notin> set a"
proof -
  from exec_SomeD [OF assms] obtain i where i: "i \<le> length html"
    and mi: "matchAt h1Regex html i = Some m" by blast
  from mi obtain rest caps where
    b: "bt h1Regex html (drop i html) [] [] = Some (rest, caps)" and c: "captures m = caps"
    and mm: "matched m = take (length html - i - length rest) (drop i html)"
    by (auto simp: matchAt_def split: option.splits)
  define r0 where "r0 = drop i html"
  have l0: "length r0 = length html - i" by (simp add: r0_def)
  from b have b1: "bt (tl h1Regex) html r0 r0 [] = Some (rest, caps)"
    unfolding h1Regex_def r0_def by (simp add: bt.simps(5))
  from b1 obtain r1 where r0: "r0 = ''<h1'' @ r1"
    and b2: "bt (drop 2 h1Regex) html r1 r0 [] = Some (rest, caps)"
    unfolding h1Regex_def by (auto elim!: bt_LitE)
  from b2 obtain a r2 where r1: "r1 = a @ r2" and a: "\<forall>c \<in> set a. notGt c"
    and b3: "bt (drop 3 h1Regex) html r2 r0 [] = Some (rest, caps)"
    unfolding h1Regex_def by (auto elim!: bt_RepE)
  from b3 obtain r3 where r2: "r2 = ''>'' @ r3"
    and b4: "bt (drop 4 h1Regex) html r3 r0 [] = Some (rest, caps)"
    unfolding h1Regex_def by (auto elim!: bt_LitE)
  from b4 obtain bb r4 where r3: "r3 = bb @ r4"
    and b5: "bt (drop 5 h1Regex) html r4 r0 [] = Some (rest, caps)"
    unfolding h1Regex_def by (auto elim!: bt_RepE)
  from b5 obtain r5 where r4: "r4 = ''</h1>'' @ r5"
    and b6: "bt (drop 6 h1Regex) html r5 r0 [] = Some (rest, caps)"
    unfolding h1Regex_def by (auto elim!: bt_LitE)
  define w where \<open>w = ''<h1'' @ a @ ''>'' @ bb @ ''</h1>''\<close>
  have whole: "r0 = w @ r5"
    by (simp add: w_def r0 r1 r2 r3 r4)
  from b6 have rest: "rest = r5" and caps: "caps = [take (length r0 - length r5) r0]"
    unfolding h1Regex_def by (auto simp: bt.simps)
  have \<open>take (length r0 - length r5) r0 = ''<h1'' @ a @ ''>'' @ bb @ ''</h1>''\<close>
    unfolding w_def [symmetric] by (simp add: whole)
  moreover have "matched m = take (length r0 - length r5) r0"
    unfolding mm rest l0 [symmetric] r0_def ..
  moreover from a have "CHR ''>'' \<notin> set a" by (auto simp: notGt_def)
  ultimately show ?thesis using that [of a bb] c caps by simp
qed

lemma gs_first_group:
  assumes "CHR ''$'' \<notin> set meta"
  shows "getSubstitution mt str pos [g] (''$1'' @ meta) = g @ meta"
proof (cases meta)
  case Nil
  then show ?thesis by (simp add: isDigit_def digitVal_def capture_def)
next
  case (Cons e r)
  have "getSubstitution mt str pos [g] (''$1'' @ meta) = g @ getSubstitution mt str pos [g] meta"
    unfolding Cons by (simp add: isDigit_def digitVal_def capture_def)
  then show ?thesis by (simp add: gs_plain [OF assms])
qed

lemma insert_after_match:
  assumes "exec h1Regex html 0 = Some m" and "metaHtml \<noteq> []" and "CHR ''$'' \<notin> set metaHtml"
  shows "insertAfterFirstH1 html metaHtml
         = take (matchEnd m) html @ metaHtml @ drop (matchEnd m) html"
proof -
  from h1Regex_sound [OF assms(1)] have c: "captures m = [matched m]" by blast
  have "insertAfterFirstH1 html metaHtml
        = take (index m) html @ matched m @ metaHtml @ drop (matchEnd m) html"
    using assms(2) unfolding insertAfterFirstH1_def replaceRe_def assms(1) option.case c
    by (simp only: gs_first_group [OF assms(3)] if_False append_assoc)
  then show ?thesis using exec_matched [OF assms(1)] by (metis append_assoc)
qed

lemma h1Regex_first:
  assumes pre: "\<not> occursIn ''<h1'' pre" and a: "CHR ''>'' \<notin> set a"
    and b: "\<not> occursIn ''</h1>'' (b @ ''</h1'')"
  shows \<open>exec h1Regex (pre @ ''<h1'' @ a @ ''>'' @ b @ ''</h1>'' @ post) 0
         = Some \<lparr>index = length pre, matched = ''<h1'' @ a @ ''>'' @ b @ ''</h1>'',
                 captures = [''<h1'' @ a @ ''>'' @ b @ ''</h1>'']\<rparr>\<close>
proof -
  define H where \<open>H = ''<h1'' @ a @ ''>'' @ b @ ''</h1>''\<close>
  define html where "html = pre @ H @ post"
  define r2 where \<open>r2 = b @ ''</h1>'' @ post\<close>
  define r1 where \<open>r1 = a @ ''>'' @ r2\<close>
  have Hr: \<open>H @ post = ''<h1'' @ r1\<close> by (simp add: H_def r1_def r2_def)
  let ?close = \<open>[Lit ''</h1>'', GClose]\<close>
  let ?res = "Some (post, [H])"
  have len3: \<open>length ''<h1'' = 3\<close> and len5: \<open>length ''</h1>'' = 5\<close> by simp_all
  have none: "matchAt h1Regex html i = None" if i: "i < length pre" for i
  proof -
    have ne: \<open>take (length ''<h1'') (drop i html) \<noteq> ''<h1''\<close>
    proof
      assume occ: \<open>take (length ''<h1'') (drop i html) = ''<h1''\<close>
      have at_pre: "html ! length pre = CHR ''<''"
        by (simp add: html_def H_def nth_append)
      show False
      proof (cases "i + 3 \<le> length pre")
        case True
        then have \<open>occursIn ''<h1'' pre\<close>
          using occurs_within [of \<open>''<h1''\<close> i pre "H @ post"] occ
          unfolding html_def by simp
        with pre show False ..
      next
        case False
        with i consider "length pre = i + 1" | "length pre = i + 2" by linarith
        then show False
        proof cases
          case 1
          from occurrence_nth(2) [OF occ, of 1] have "html ! (i + 1) = CHR ''h''" by simp
          with at_pre 1 show False by simp
        next
          case 2
          from occurrence_nth(2) [OF occ, of 2] have "html ! (i + 2) = CHR ''1''" by simp
          with at_pre 2 show False by simp
        qed
      qed
    qed
    show ?thesis
      unfolding matchAt_def h1Regex_def bt.simps(5) bt_Lit_None [OF ne] by simp
  qed
  have c3: "bt [GClose] html post (H @ post) [] = ?res"
    unfolding bt_GClose_append by (simp add: bt.simps)
  have c2: "bt (Rep anyChar 0 None False # ?close) html r2 (H @ post) [] = ?res"
  proof (rule bt_Rep_lazy [where j = "length b"])
    show "0 \<le> length b" by simp
    have "takeWhile anyChar r2 = r2" by (simp add: takeWhile_eq_all_conv anyChar_def)
    then have "runLength anyChar None r2 = length r2"
      by (simp only: runLength_def Let_def option.case)
    then show "length b \<le> runLength anyChar None r2" by (simp add: r2_def)
  next
    fix n assume n: "n < length b"
    have \<open>take (length ''</h1>'') (drop n r2) \<noteq> ''</h1>''\<close>
    proof
      assume occ: \<open>take (length ''</h1>'') (drop n r2) = ''</h1>''\<close>
      define x where \<open>x = b @ ''</h1''\<close>
      define y where \<open>y = ''>'' @ post\<close>
      have r2': "r2 = x @ y" by (simp add: r2_def x_def y_def)
      have "n + length ''</h1>'' \<le> length x" using n by (simp add: x_def)
      from occurs_within [OF occ [unfolded r2'] this] b show False
        unfolding x_def by simp
    qed
    then show "bt ?close html (drop n r2) (H @ post) [] = None"
      by (rule bt_Lit_None)
  next
    have \<open>drop (length b) r2 = ''</h1>'' @ post\<close> by (simp add: r2_def)
    then show "bt ?close html (drop (length b) r2) (H @ post) [] = ?res"
      using c3 by (simp only: bt_Lit_append)
  qed
  have c1: \<open>bt (Rep notGt 0 None True # Lit ''>'' # Rep anyChar 0 None False # ?close)
              html r1 (H @ post) [] = ?res\<close>
  proof (rule bt_Rep_greedy [where j = "length a"])
    show "0 \<le> length a" by simp
    have tw: "takeWhile notGt r1 = a"
      unfolding r1_def using a by (subst takeWhile_append2) (auto simp: notGt_def)
    then have run: "runLength notGt None r1 = length a"
      by (simp only: runLength_def Let_def option.case)
    then show "length a \<le> runLength notGt None r1" by simp
    fix n assume "length a < n" and "n \<le> runLength notGt None r1"
    with run show \<open>bt (Lit ''>'' # Rep anyChar 0 None False # ?close) html (drop n r1) (H @ post) []
          = None\<close> by simp
  next
    have \<open>drop (length a) r1 = ''>'' @ r2\<close> by (simp add: r1_def)
    then show \<open>bt (Lit ''>'' # Rep anyChar 0 None False # ?close) html (drop (length a) r1) (H @ post) []
          = ?res\<close>
      using c2 by (simp only: bt_Lit_append)
  qed
  have c0: "bt h1Regex html (H @ post) [] [] = ?res"
    unfolding h1Regex_def bt.simps(5) unfolding Hr bt_Lit_append
    using c1 unfolding Hr .
  have dr: "drop (length pre) html = H @ post" by (simp add: html_def)
  have "matchAt h1Regex html (length pre)
        = Some \<lparr>index = length pre, matched = H, captures = [H]\<rparr>"
    unfolding matchAt_def dr c0 by (simp add: html_def)
  then have "exec h1Regex html 0 = Some \<lparr>index = length pre, matched = H, captures = [H]\<rparr>"
    by (intro exec_first [where k = "length pre"] none) (simp_all add: html_def)
  then show ?thesis unfolding html_def H_def by simp
qed

lemma h1Regex_occurs:
  assumes "exec h1Regex html 0 = Some m"
  shows \<open>occursIn ''<h1'' html\<close> and \<open>occursIn ''</h1>'' html\<close>
proof -
  from h1Regex_sound [OF assms] obtain a b where
    m: \<open>matched m = ''<h1'' @ a @ ''>'' @ b @ ''</h1>''\<close> by blast
  have "html = take (matchEnd m) html @ drop (matchEnd m) html" by simp
  also have "\<dots> = take (index m) html @ matched m @ drop (matchEnd m) html"
    using exec_matched [OF assms] by (metis append_assoc)
  finally have h: \<open>html = take (index m) html @ ''<h1'' @ a @ ''>'' @ b @ ''</h1>''
                     @ drop (matchEnd m) html\<close>
    unfolding m by simp
  show \<open>occursIn ''<h1'' html\<close>
    unfolding occursIn_iff
    by (rule exI [of _ "take (index m) html"],
        rule exI [of _ \<open>a @ ''>'' @ b @ ''</h1>'' @ drop (matchEnd m) html\<close>])
       (use h in simp)
  show \<open>occursIn ''</h1>'' html\<close>
    unfolding occursIn_iff
    by (rule exI [of _ \<open>take (index m) html @ ''<h1'' @ a @ ''>'' @ b\<close>],
        rule exI [of _ "drop (matchEnd m) html"])
       (use h in simp)
qed

lemma insert_without_heading:
  assumes \<open>\<not> (occursIn ''<h1'' html \<and> occursIn ''</h1>'' html)\<close>
  shows "insertAfterFirstH1 html metaHtml = html"
proof -
  have "exec h1Regex html 0 = None"
    using h1Regex_occurs [of html] assms by (cases "exec h1Regex html 0") auto
  then show ?thesis by (simp add: insertAfterFirstH1_def replaceRe_def)
qed

lemma insert_after_heading:
  assumes "\<not> occursIn ''<h1'' pre" and "CHR ''>'' \<notin> set a"
    and "\<not> occursIn ''</h1>'' (b @ ''</h1'')"
    and "metaHtml \<noteq> []" and "CHR ''$'' \<notin> set metaHtml"
  shows \<open>insertAfterFirstH1 (pre @ ''<h1'' @ a @ ''>'' @ b @ ''</h1>'' @ post) metaHtml
         = pre @ ''<h1'' @ a @ ''>'' @ b @ ''</h1>'' @ metaHtml @ post\<close>
proof -
  define H where \<open>H = ''<h1'' @ a @ ''>'' @ b @ ''</h1>''\<close>
  let ?m = "\<lparr>index = length pre, matched = H, captures = [H]\<rparr>"
  have e: "exec h1Regex (pre @ H @ post) 0 = Some ?m"
    using h1Regex_first [OF assms(1-3), of post] unfolding H_def by simp
  have "insertAfterFirstH1 (pre @ H @ post) metaHtml
        = take (matchEnd ?m) (pre @ H @ post) @ metaHtml @ drop (matchEnd ?m) (pre @ H @ post)"
    by (rule insert_after_match [OF e assms(4,5)])
  also have "\<dots> = pre @ H @ metaHtml @ post" by (simp add: matchEnd_def)
  finally show ?thesis unfolding H_def by simp
qed

text \<open>
  C9, as amended. The metadata block is empty when none of \<^verbatim>\<open>student_id\<close>,
  \<^verbatim>\<open>author\<close>, \<^verbatim>\<open>affiliation\<close> has a truthy value in the front matter; otherwise it
  is the container \<^verbatim>\<open>document-meta\<close> around the lines of the fields with a truthy
  value, in the order identifier, author, affiliation. Let the fragment be \<open>pre\<close>, the
  heading and \<open>post\<close>, where the heading is \<^verbatim>\<open><h1\<close>, attributes \<open>a\<close> without
  \<^verbatim>\<open>>\<close>, \<^verbatim>\<open>>\<close>, a content \<open>b\<close> and \<^verbatim>\<open></h1>\<close>; let it be the first heading
  (\<^verbatim>\<open><h1\<close> does not occur in \<open>pre\<close>) and let it end at the first closing tag
  (\<^verbatim>\<open></h1>\<close> does not occur in \<open>b\<close>, nor across the end of \<open>b\<close>). Then a block that
  is not empty, of values without the character \<^verbatim>\<open>$\<close>, is put right after the
  heading: the result is \<open>pre\<close>, the heading, the block and \<open>post\<close>. A fragment in
  which \<^verbatim>\<open><h1\<close> or \<^verbatim>\<open></h1>\<close> does not occur is returned as it is, the block being
  dropped, and so is every fragment when the block is empty.
\<close>

theorem metadata_block:
  \<open>generateMetaInfo fm =
     (if \<not> truthy (getProp fm ''student_id'') \<and> \<not> truthy (getProp fm ''author'')
         \<and> \<not> truthy (getProp fm ''affiliation'') then []
      else ''\<newline>  <div class="document-meta">\<newline>    ''
           @ metaLine ''meta-student-id'' (studentIdLabel @ '': '') (getProp fm ''student_id'')
           @ ''\<newline>    '' @ metaLine ''meta-author'' [] (getProp fm ''author'')
           @ ''\<newline>    '' @ metaLine ''meta-affiliation'' [] (getProp fm ''affiliation'')
           @ ''\<newline>  </div>'')
   \<and> (generateMetaInfo fm \<noteq> []
        \<and> CHR ''$'' \<notin> set (toString (getProp fm ''student_id'') @ toString (getProp fm ''author'')
                              @ toString (getProp fm ''affiliation''))
        \<and> \<not> occursIn ''<h1'' pre \<and> CHR ''>'' \<notin> set a \<and> \<not> occursIn ''</h1>'' (b @ ''</h1'')
       \<longrightarrow> insertAfterFirstH1 (pre @ ''<h1'' @ a @ ''>'' @ b @ ''</h1>'' @ post) (generateMetaInfo fm)
             = pre @ ''<h1'' @ a @ ''>'' @ b @ ''</h1>'' @ generateMetaInfo fm @ post)
   \<and> (\<not> (occursIn ''<h1'' html \<and> occursIn ''</h1>'' html)
       \<longrightarrow> insertAfterFirstH1 html (generateMetaInfo fm) = html)
   \<and> (generateMetaInfo fm = [] \<longrightarrow> insertAfterFirstH1 html (generateMetaInfo fm) = html)\<close>
proof (intro conjI impI)
  show \<open>generateMetaInfo fm =
     (if \<not> truthy (getProp fm ''student_id'') \<and> \<not> truthy (getProp fm ''author'')
         \<and> \<not> truthy (getProp fm ''affiliation'') then []
      else ''\<newline>  <div class="document-meta">\<newline>    ''
           @ metaLine ''meta-student-id'' (studentIdLabel @ '': '') (getProp fm ''student_id'')
           @ ''\<newline>    '' @ metaLine ''meta-author'' [] (getProp fm ''author'')
           @ ''\<newline>    '' @ metaLine ''meta-affiliation'' [] (getProp fm ''affiliation'')
           @ ''\<newline>  </div>'')\<close>
    unfolding generateMetaInfo_eq by auto
next
  assume h: \<open>generateMetaInfo fm \<noteq> []
        \<and> CHR ''$'' \<notin> set (toString (getProp fm ''student_id'') @ toString (getProp fm ''author'')
                              @ toString (getProp fm ''affiliation''))
        \<and> \<not> occursIn ''<h1'' pre \<and> CHR ''>'' \<notin> set a \<and> \<not> occursIn ''</h1>'' (b @ ''</h1'')\<close>
  then have "CHR ''$'' \<notin> set (generateMetaInfo fm)"
    by (intro generateMetaInfo_plain) auto
  with h show \<open>insertAfterFirstH1 (pre @ ''<h1'' @ a @ ''>'' @ b @ ''</h1>'' @ post) (generateMetaInfo fm)
             = pre @ ''<h1'' @ a @ ''>'' @ b @ ''</h1>'' @ generateMetaInfo fm @ post\<close>
    by (intro insert_after_heading) auto
next
  assume \<open>\<not> (occursIn ''<h1'' html \<and> occursIn ''</h1>'' html)\<close>
  then show "insertAfterFirstH1 html (generateMetaInfo fm) = html"
    by (rule insert_without_heading)
next
  assume "generateMetaInfo fm = []"
  then show "insertAfterFirstH1 html (generateMetaInfo fm) = html"
    by (simp add: insertAfterFirstH1_def)
qed

text \<open>
  The scenario with an author and an affiliation, in a fragment with a paragraph before
  the first heading and a second heading after it; and a fragment without a heading.
\<close>

theorem metadata_block_witness:
  \<open>generateMetaInfo (JMap [(''author'', JStr ''Jane''), (''affiliation'', JStr ''Lab'')])
     = ''\<newline>  <div class="document-meta">\<newline>    \<newline>    <div class="meta-author">Jane</div>\<newline>    <div class="meta-affiliation">Lab</div>\<newline>  </div>''
   \<and> \<not> occursIn ''<h1'' ''<p>intro</p>\<newline>''
   \<and> CHR ''>'' \<notin> set '' id="title"''
   \<and> \<not> occursIn ''</h1>'' (''Title'' @ ''</h1'')
   \<and> insertAfterFirstH1
        (''<p>intro</p>\<newline>'' @ ''<h1'' @ '' id="title"'' @ ''>'' @ ''Title'' @ ''</h1>''
           @ ''\<newline><h1>Second</h1>\<newline>'')
        (generateMetaInfo (JMap [(''author'', JStr ''Jane''), (''affiliation'', JStr ''Lab'')]))
       = ''<p>intro</p>\<newline><h1 id="title">Title</h1>\<newline>  <div class="document-meta">\<newline>    \<newline>    <div class="meta-author">Jane</div>\<newline>    <div class="meta-affiliation">Lab</div>\<newline>  </div>\<newline><h1>Second</h1>\<newline>''
   \<and> \<not> (occursIn ''<h1'' ''<p>Text</p>'' \<and> occursIn ''</h1>'' ''<p>Text</p>'')
   \<and> insertAfterFirstH1 ''<p>Text</p>''
        (generateMetaInfo (JMap [(''author'', JStr ''Jane''), (''affiliation'', JStr ''Lab'')]))
       = ''<p>Text</p>''\<close>
proof -
  let ?fm = \<open>JMap [(''author'', JStr ''Jane''), (''affiliation'', JStr ''Lab'')]\<close>
  have g: \<open>generateMetaInfo ?fm = ''\<newline>  <div class="document-meta">\<newline>    \<newline>    <div class="meta-author">Jane</div>\<newline>    <div class="meta-affiliation">Lab</div>\<newline>  </div>''\<close>
    by code_simp
  have h1: "generateMetaInfo ?fm \<noteq> []" by (simp add: g)
  have h2: \<open>CHR ''$'' \<notin> set (toString (getProp ?fm ''student_id'') @ toString (getProp ?fm ''author'')
                              @ toString (getProp ?fm ''affiliation''))\<close>
    by code_simp
  have h3: \<open>\<not> occursIn ''<h1'' ''<p>intro</p>\<newline>''\<close> by code_simp
  have h4: \<open>CHR ''>'' \<notin> set '' id="title"''\<close> by simp
  have h5: \<open>\<not> occursIn ''</h1>'' (''Title'' @ ''</h1'')\<close> by code_simp
  have h6: \<open>\<not> (occursIn ''<h1'' ''<p>Text</p>'' \<and> occursIn ''</h1>'' ''<p>Text</p>'')\<close>
    by code_simp
  from metadata_block [of ?fm \<open>''<p>intro</p>\<newline>''\<close> \<open>'' id="title"''\<close> \<open>''Title''\<close>
      \<open>''\<newline><h1>Second</h1>\<newline>''\<close> \<open>''<p>Text</p>''\<close>] h1 h2 h3 h4 h5 h6
  have \<open>insertAfterFirstH1
        (''<p>intro</p>\<newline>'' @ ''<h1'' @ '' id="title"'' @ ''>'' @ ''Title'' @ ''</h1>''
           @ ''\<newline><h1>Second</h1>\<newline>'') (generateMetaInfo ?fm)
       = ''<p>intro</p>\<newline>'' @ ''<h1'' @ '' id="title"'' @ ''>'' @ ''Title'' @ ''</h1>''
           @ generateMetaInfo ?fm @ ''\<newline><h1>Second</h1>\<newline>''\<close>
    and \<open>insertAfterFirstH1 ''<p>Text</p>'' (generateMetaInfo ?fm) = ''<p>Text</p>''\<close>
    by blast+
  then show ?thesis using h3 h4 h5 h6 unfolding g by simp
qed

text \<open>
  C9, as stated, fails for a field that is present with a falsy value: a
  \<^verbatim>\<open>student_id\<close> that the front matter holds with the value \<open>0\<close> has no line in the
  block, and alone it gives no block at all.
\<close>

theorem metadata_block_counterexample:
  \<open>getProp (JMap [(''student_id'', JNum 0), (''author'', JStr ''Jane'')]) ''student_id'' = JNum 0
   \<and> generateMetaInfo (JMap [(''student_id'', JNum 0), (''author'', JStr ''Jane'')])
       = ''\<newline>  <div class="document-meta">\<newline>    \<newline>    <div class="meta-author">Jane</div>\<newline>    \<newline>  </div>''
   \<and> generateMetaInfo (JMap [(''student_id'', JNum 0)]) = []\<close>
  by code_simp

section \<open>Document assembly: the claim\<close>


















end
